theory Spec2Isabelle
  imports Main "HOL-Library.Sublist" "HOL-Library.Multiset"
begin

section \<open>Harvest pipeline: values, effects and the world\<close>

text \<open>
  The harvest (\<open>src/cli/commands/opensea.ts\<close>) talks to four HTTP endpoints, sleeps on
  timers, prints to the error console and writes files. Every effect is an entry of a trace
  or a change of the file store, both held in the record \<open>world\<close> that each operation
  takes and returns. Informational \<open>console.log\<close> lines are not recorded.
\<close>

datatype error =
    RateLimited                  \<comment> \<open>\<open>new Error("Rate limited")\<close>\<close>
  | ImageDownloadFailed nat      \<comment> \<open>\<open>new Error(`Failed to download image ...`)\<close>, with the status\<close>
  | RetryExhausted               \<comment> \<open>the retry policy gave up\<close>
  | FetchError                   \<comment> \<open>\<open>fetch\<close> rejected: no response\<close>
  | SyntaxError                  \<comment> \<open>\<open>response.json()\<close> rejected\<close>
  | TypeError                    \<comment> \<open>\<open>new URL\<close> of an invalid URL, \<open>reduce\<close> of an empty array\<close>
  | RangeError                   \<comment> \<open>\<open>toISOString\<close> of an invalid date\<close>
  | Overflow                     \<comment> \<open>\<open>BigNumber.toNumber\<close> beyond 53 bits\<close>
  | InvalidBigNumber             \<comment> \<open>\<open>BigNumber.from\<close> of a string that is no integer\<close>
  | RanOutOfGifs                 \<comment> \<open>\<open>new Error("Ran out of GIFs")\<close>\<close>
  | ENOENT                       \<comment> \<open>a file to read or copy is missing\<close>
  | EACCES                       \<comment> \<open>a file cannot be written\<close>

record IMetadataAttribute =
  trait_type :: string
  attr_value :: string

record OwnerUser =
  username :: string
  address :: string

record Owner =
  owner_quantity :: string
  owner_created_date :: string
  owner :: OwnerUser

record CollectionAsset =
  token_id :: string
  image_url :: "string option"
  image_original_url :: "string option"
  asset_name :: string
  asset_description :: string
  traits :: "IMetadataAttribute list option"
  asset_contract_address :: string
  collection_slug :: string

text \<open>
  An \<open>AssetEvent\<close> carries a back reference to its asset, which the harvest deletes before
  it stores the event. The price and account fields of the interface are passive data that
  no code of the repository reads; they are left out.
\<close>

record AssetEvent =
  event_asset :: "CollectionAsset option"
  event_type :: string
  created_date :: string

text \<open>
  \<open>IOpenSeaMetadata\<close>, the JSON record of one token. \<open>md_id\<close> and
  \<open>original_creation_date\<close> are the two fields the normalisation adds; a field that is
  \<open>None\<close> is \<open>undefined\<close> and is absent from the \<open>JSON.stringify\<close> output.
\<close>

record IOpenSeaMetadata =
  md_name :: string
  md_description :: string
  image :: string
  attributes :: "IMetadataAttribute list option"
  owners :: "Owner list option"
  events :: "AssetEvent list option"
  md_id :: "string option"
  original_creation_date :: "string option"

text \<open>A page of a cursor-based listing: \<open>{next?: string; previous?: string} & T\<close>.\<close>

record 't page =
  page_next :: "string option"
  page_previous :: "string option"
  payload :: 't

text \<open>
  The requests the program sends. The query string of each URL is built from exactly the
  fields listed, so a request is identified by them.
\<close>

datatype request =
    GetAssets string string "string option"
      \<comment> \<open>\<open>GET /api/v1/assets?collection=&cursor=\<close>: API key, collection slug, cursor\<close>
  | GetEvents string string string "string option"
      \<comment> \<open>\<open>GET /api/v1/events?cursor=&asset_contract_address=&token_id=\<close>\<close>
  | GetOwners string string string "string option"
      \<comment> \<open>\<open>GET /api/v1/asset/{address}/{token_id}/owners?cursor=\<close>\<close>
  | GetImage string
      \<comment> \<open>\<open>fetch(imageUrl.toString())\<close>\<close>
  | GiphySearch string string nat
      \<comment> \<open>\<open>gf.search(searchTerm, {offset, limit: 10, ...})\<close>: API key, term, offset\<close>
  | GetGif string
      \<comment> \<open>\<open>fetch(next.value)\<close> of a placeholder image\<close>

record 'b response =
  status :: nat
  retry_after :: "string option"      \<comment> \<open>\<open>response.headers.get("retry-after")\<close>\<close>
  content_type :: "string option"     \<comment> \<open>\<open>response.headers.get("content-type")\<close>\<close>
  body :: "'b option"                 \<comment> \<open>the decoded body; \<open>None\<close> when decoding rejects\<close>

datatype event =
    Fetch request
  | Sleep nat                          \<comment> \<open>\<open>setTimeout(resolve, ms)\<close>, awaited\<close>
  | ConsoleError error                 \<comment> \<open>\<open>console.error(err)\<close>\<close>

text \<open>
  A \<open>URL\<close> object of the platform (a WHATWG URL record), with the components that the
  program assigns or that its serialisation shows. \<open>protocol\<close> ends in a colon;
  \<open>hostname\<close> is \<open>None\<close> for a URL without host (\<open>data:\<close>, \<open>mailto:\<close>); \<open>port\<close> is
  empty when there is none; \<open>search\<close> and \<open>url_hash\<close> are empty or start with \<open>?\<close> and
  \<open>#\<close>. \<open>opaque\<close> says that the URL has an opaque path: what follows the scheme is one
  string and no list of segments, as in \<open>data:image/png;base64,...\<close>.
\<close>

record url =
  protocol :: string
  url_username :: string
  url_password :: string
  hostname :: "string option"
  port :: string
  opaque :: bool
  pathname :: string
  search :: string
  url_hash :: string

datatype stored = ImageFile string | JsonFile IOpenSeaMetadata

record world =
  trace :: "event list"
  files :: "string \<rightharpoonup> stored"

type_synonym ('z, 'a) io = "'z world_scheme \<Rightarrow> (error + 'a) \<times> 'z world_scheme"

text \<open>
  The environment: what each endpoint answers to a request, as a function of how many times
  that same request has been sent before (so a rate limit that lifts after a while, or an
  image host that fails twice, can be described), and the platform functions the program
  calls. \<open>None\<close> from an endpoint is a network failure.
\<close>

record env =
  assets_api :: "request \<Rightarrow> nat \<Rightarrow> CollectionAsset list option page response option"
  events_api :: "request \<Rightarrow> nat \<Rightarrow> AssetEvent list option page response option"
  owners_api :: "request \<Rightarrow> nat \<Rightarrow> Owner list option page response option"
  image_host :: "request \<Rightarrow> nat \<Rightarrow> string response option"
  writable :: "string \<Rightarrow> bool"         \<comment> \<open>does \<open>fs.promises.writeFile\<close> to this path succeed\<close>
  extension :: "string \<Rightarrow> string option" \<comment> \<open>\<open>mime-types\<close>: the extension of a content type, or \<open>false\<close>\<close>
  parseURL :: "string \<Rightarrow> url option"    \<comment> \<open>the platform's URL parser; \<open>None\<close> for an invalid URL\<close>
  strips_spaces :: bool                  \<comment> \<open>does removing the query strip an opaque path of trailing spaces\<close>

definition sleep :: "nat \<Rightarrow> 'z world_scheme \<Rightarrow> 'z world_scheme" where
  "sleep ms w = w\<lparr>trace := trace w @ [Sleep ms]\<rparr>"

definition fetch :: "(request \<Rightarrow> nat \<Rightarrow> 'b response option) \<Rightarrow> request \<Rightarrow> ('z, 'b response) io" where
  "fetch api r w =
     (let n = count_list (trace w) (Fetch r);
          w' = w\<lparr>trace := trace w @ [Fetch r]\<rparr>
      in case api r n of
           None \<Rightarrow> (Inl FetchError, w')
         | Some resp \<Rightarrow> (Inr resp, w'))"

definition json :: "'b response \<Rightarrow> error + 'b" where
  "json resp = (case body resp of None \<Rightarrow> Inl SyntaxError | Some b \<Rightarrow> Inr b)"

text \<open>JavaScript truthiness of an optional string: \<open>undefined\<close> and \<open>""\<close> are falsy.\<close>

definition truthy :: "string option \<Rightarrow> bool" where
  "truthy s = (case s of None \<Rightarrow> False | Some t \<Rightarrow> t \<noteq> [])"

subsection \<open>\<open>parseInt\<close>\<close>

text \<open>
  \<open>parseInt(s)\<close> skips leading white space, reads an optional sign and the longest run of
  decimal digits, and is \<open>NaN\<close> (here \<open>None\<close>) when there is no digit. The model reads
  radix 10 only: the hexadecimal prefix \<open>0x\<close> is read as the digit 0.
\<close>

definition is_digit :: "char \<Rightarrow> bool" where
  "is_digit c = ((48::nat) \<le> of_char c \<and> of_char c \<le> (57::nat))"

definition digit_val :: "char \<Rightarrow> nat" where
  "digit_val c = of_char c - 48"

definition digits_val :: "string \<Rightarrow> nat" where
  "digits_val ds = foldl (\<lambda>acc c. 10 * acc + digit_val c) 0 ds"

definition is_space :: "char \<Rightarrow> bool" where
  "is_space c = (c = CHR '' '' \<or> c = CHR 0x09 \<or> c = CHR 0x0A \<or> c = CHR 0x0D)"

definition parseInt :: "string \<Rightarrow> int option" where
  "parseInt s =
     (let t = dropWhile is_space s;
          neg = (case t of c # _ \<Rightarrow> c = CHR ''-'' | [] \<Rightarrow> False);
          u = (case t of c # cs \<Rightarrow> if c = CHR ''-'' \<or> c = CHR ''+'' then cs else t | [] \<Rightarrow> []);
          ds = takeWhile is_digit u
      in if ds = [] then None
         else Some (if neg then - int (digits_val ds) else int (digits_val ds)))"

section \<open>RetryPolicy\<close>

text \<open>
  Modelled from the spec: \<open>retryWithBackoff\<close> is imported from \<open>../retry\<close>, which is not
  among the source files. The spec (4.1): \<open>retry(operation, maxAttempts, initialDelayMs)\<close>
  fails with \<open>RetryExhausted\<close> after \<open>maxAttempts\<close> failed attempts, each attempt from the
  second on preceded by a delay that starts at \<open>initialDelayMs\<close> and grows by a fixed
  factor; every error of the operation is retryable. The spec fixes no factor; the model
  doubles.
\<close>

definition backoffFactor :: nat where
  "backoffFactor = 2"

fun retryWithBackoff :: "('z, 'a) io \<Rightarrow> nat \<Rightarrow> nat \<Rightarrow> ('z, 'a) io" where
  "retryWithBackoff operation 0 delay w = (Inl RetryExhausted, w)"
| "retryWithBackoff operation (Suc n) delay w =
     (case operation w of
        (Inr v, w') \<Rightarrow> (Inr v, w')
      | (Inl e, w') \<Rightarrow>
          if n = 0 then (Inl RetryExhausted, w')
          else retryWithBackoff operation n (delay * backoffFactor) (sleep delay w'))"

section \<open>PaginatedFetch\<close>

text \<open>
  \<open>fetchWithPagination\<close> (opensea.ts 105-125) is an asynchronous generator around a
  \<open>while (true)\<close> loop. The model returns the pages it yields, in order, and the error that
  ended the traversal if one did. The loop has no bound of its own, so the function is
  partial: \<open>None\<close> is a traversal that never ends.
\<close>

partial_function (option) fetchWithPagination ::
  "(string option \<Rightarrow> ('z, 't page) io) \<Rightarrow> string option \<Rightarrow> 't page list \<Rightarrow>
   'z world_scheme \<Rightarrow> (('t page list \<times> error option) \<times> 'z world_scheme) option"
where
  "fetchWithPagination fetcher next yielded w =
     (case retryWithBackoff (fetcher next) 5 250 w of
        (Inl e, w') \<Rightarrow> Some ((yielded, Some e), w')
      | (Inr result, w') \<Rightarrow>
          if \<not> truthy (page_next result) then Some ((yielded @ [result], None), w')
          else fetchWithPagination fetcher (page_next result) (yielded @ [result]) w')"

text \<open>
  The block that follows every API call (opensea.ts 198-211, 245-256, 319-326): on status
  429, wait as long as the \<open>retry-after\<close> header says if that is a positive number, and
  throw in either case.
\<close>

definition rateLimit :: "'b response \<Rightarrow> ('z, unit) io" where
  "rateLimit resp w =
     (if status resp = 429 then
        (let retryAfter = parseInt (case retry_after resp of None \<Rightarrow> ''0'' | Some h \<Rightarrow> h)
         in case retryAfter of
              None \<Rightarrow> (Inl RateLimited, w)
            | Some n \<Rightarrow>
                if n > 0 then (Inl RateLimited, sleep (nat n * 1000) w)
                else (Inl RateLimited, w))
      else (Inr (), w))"

text \<open>
  The three API calls of the program (assets, events, owners) are the same code with a
  different URL: \<open>fetch\<close> with the API key header, the rate-limit block, then
  \<open>response.json()\<close>.
\<close>

definition apiCall :: "(request \<Rightarrow> nat \<Rightarrow> 'b response option) \<Rightarrow> request \<Rightarrow> ('z, 'b) io" where
  "apiCall api r w =
     (case fetch api r w of
        (Inl e, w1) \<Rightarrow> (Inl e, w1)
      | (Inr resp, w1) \<Rightarrow>
          (case rateLimit resp w1 of
             (Inl e, w2) \<Rightarrow> (Inl e, w2)
           | (Inr _, w2) \<Rightarrow> (json resp, w2)))"

text \<open>
  The fetcher of the asset listing (opensea.ts 305-329). The \<open>cursor\<close> parameter is sent
  only when \<open>next\<close> is truthy.
\<close>

definition assetsFetcher :: "env \<Rightarrow> string \<Rightarrow> string \<Rightarrow> string option \<Rightarrow>
    ('z, CollectionAsset list option page) io" where
  "assetsFetcher env collectionSlug apiKey next =
     apiCall (assets_api env) (GetAssets apiKey collectionSlug (if truthy next then next else None))"

section \<open>AssetEnricher\<close>

subsection \<open>Image resolution\<close>

text \<open>
  \<open>imageUrl.toString()\<close>, the serialisation of the URL: the scheme; for a URL with a host
  \<open>//\<close>, the credentials if there are any, the host and the port; for a URL without host
  nothing, or \<open>/.\<close> when a path of segments starts with an empty segment; then the path,
  the query and the fragment.
\<close>

definition credentials :: "url \<Rightarrow> string" where
  "credentials u =
     (if url_username u = [] \<and> url_password u = [] then []
      else url_username u @ (if url_password u = [] then [] else CHR '':'' # url_password u) @ ''@'')"

definition href :: "url \<Rightarrow> string" where
  "href u =
     protocol u @
     (case hostname u of
        Some h \<Rightarrow> ''//'' @ credentials u @ h @ (if port u = [] then [] else CHR '':'' # port u)
      | None \<Rightarrow> if \<not> opaque u \<and> prefix ''//'' (pathname u) then ''/.'' else [])
     @ pathname u @ search u @ url_hash u"

text \<open>\<open>subject.replace(pattern, replacement)\<close> with a string pattern: the first occurrence only.\<close>

fun replaceFirst :: "string \<Rightarrow> string \<Rightarrow> string \<Rightarrow> string" where
  "replaceFirst pat rep [] = (if pat = [] then rep else [])"
| "replaceFirst pat rep (c # cs) =
     (if prefix pat (c # cs) then rep @ drop (length pat) (c # cs)
      else c # replaceFirst pat rep cs)"

text \<open>
  \<open>new URL(s)\<close>. An absent \<open>image_url\<close> reaches the constructor as \<open>null\<close>, which is no
  valid URL.
\<close>

definition URL_new :: "env \<Rightarrow> string option \<Rightarrow> error + url" where
  "URL_new env s =
     (case s of
        None \<Rightarrow> Inl TypeError
      | Some t \<Rightarrow> (case parseURL env t of None \<Rightarrow> Inl TypeError | Some u \<Rightarrow> Inr u))"

text \<open>
  The setters of the \<open>URL\<close> object that opensea.ts 160-164 assigns to. Assigning the empty
  string to \<open>search\<close> removes the query of any URL; in one revision of the URL standard,
  which some versions of the platform implement and others do not, the setter then strips
  the trailing spaces of an opaque path that no fragment follows. The setters of
  \<open>hostname\<close> and \<open>pathname\<close> return at once, leaving the URL as it is, when it has an
  opaque path. Otherwise the \<open>hostname\<close> setter parses its argument as a host, which
  succeeds for the domain name assigned here, and the \<open>pathname\<close> setter parses its
  argument as a path of segments, from the root: a value that does not start with \<open>/\<close>
  gets one. The values assigned here are a path read from the same object, with one
  \<open>/gae/\<close> replaced by \<open>/\<close> and \<open>=d\<close> appended; such a value has no dot segment and
  no character left to encode, so the parse changes nothing else.
\<close>

definition stripTrailingSpaces :: "string \<Rightarrow> string" where
  "stripTrailingSpaces p = rev (dropWhile (\<lambda>c. c = CHR '' '') (rev p))"

definition set_search_empty :: "env \<Rightarrow> url \<Rightarrow> url" where
  "set_search_empty env u =
     (let u1 = u\<lparr>search := []\<rparr>
      in if strips_spaces env \<and> opaque u1 \<and> url_hash u1 = []
         then u1\<lparr>pathname := stripTrailingSpaces (pathname u1)\<rparr>
         else u1)"

definition set_hostname :: "string \<Rightarrow> url \<Rightarrow> url" where
  "set_hostname h u = (if opaque u then u else u\<lparr>hostname := Some h\<rparr>)"

definition rooted :: "string \<Rightarrow> string" where
  "rooted p = (if prefix ''/'' p then p else CHR ''/'' # p)"

definition set_pathname :: "string \<Rightarrow> url \<Rightarrow> url" where
  "set_pathname p u = (if opaque u then u else u\<lparr>pathname := rooted p\<rparr>)"

text \<open>The three assignments of opensea.ts 160-164, in order.\<close>

definition rewriteImageUrl :: "env \<Rightarrow> url \<Rightarrow> url" where
  "rewriteImageUrl env u =
     (let u1 = set_search_empty env u;
          u2 = set_hostname ''lh3.googleusercontent.com'' u1
      in set_pathname (replaceFirst ''/gae/'' ''/'' (pathname u2) @ ''=d'') u2)"

text \<open>
  The retried closure (opensea.ts 158-172) assigns to \<open>imageUrl\<close>, a variable of the
  enclosing function: the object lives across attempts. The state of the closure is the
  world extended with that object.
\<close>

record url_world = world +
  imageUrl :: url

definition ok :: "'b response \<Rightarrow> bool" where
  "ok resp = (200 \<le> status resp \<and> status resp \<le> 299)"

definition imageAttempt :: "env \<Rightarrow> CollectionAsset \<Rightarrow> (unit url_world_ext, string response) io" where
  "imageAttempt env asset s =
     (let s1 = s\<lparr>imageUrl := rewriteImageUrl env (imageUrl s)\<rparr>
      in case fetch (image_host env) (GetImage (href (imageUrl s1))) s1 of
           (Inl e, s2) \<Rightarrow> (Inl e, s2)
         | (Inr imageResponse, s2) \<Rightarrow>
             if \<not> ok imageResponse then (Inl (ImageDownloadFailed (status imageResponse)), s2)
             else (Inr imageResponse, s2))"

definition resolveImage :: "env \<Rightarrow> CollectionAsset \<Rightarrow> url \<Rightarrow> world \<Rightarrow>
    (error + string response) \<times> url \<times> world" where
  "resolveImage env asset u w =
     (case retryWithBackoff (imageAttempt env asset) 5 250
             \<lparr>trace = trace w, files = files w, imageUrl = u\<rparr> of
        (r, s) \<Rightarrow> (r, imageUrl s, \<lparr>trace = trace s, files = files s\<rparr>))"

subsection \<open>Event and ownership history\<close>

definition orEmpty :: "'a list option \<Rightarrow> 'a list" where
  "orEmpty xs = (case xs of None \<Rightarrow> [] | Some ys \<Rightarrow> ys)"

definition eventsAttempt :: "env \<Rightarrow> string \<Rightarrow> CollectionAsset \<Rightarrow> string option \<Rightarrow>
    ('z, AssetEvent list option page) io" where
  "eventsAttempt env apiKey asset next =
     apiCall (events_api env)
       (GetEvents apiKey (asset_contract_address asset) (token_id asset)
          (if truthy next then next else None))"

text \<open>The events fetcher wraps its attempt in a retry of its own (opensea.ts 182-217).\<close>

definition eventsFetcher :: "env \<Rightarrow> string \<Rightarrow> CollectionAsset \<Rightarrow> string option \<Rightarrow>
    ('z, AssetEvent list option page) io" where
  "eventsFetcher env apiKey asset next = retryWithBackoff (eventsAttempt env apiKey asset next) 5 250"

definition ownersFetcher :: "env \<Rightarrow> string \<Rightarrow> CollectionAsset \<Rightarrow> string option \<Rightarrow>
    ('z, Owner list option page) io" where
  "ownersFetcher env apiKey asset next =
     apiCall (owners_api env)
       (GetOwners apiKey (asset_contract_address asset) (token_id asset)
          (if truthy next then next else None))"

text \<open>
  The two \<open>for await\<close> loops collect the items of every page; an error thrown by the
  generator leaves the loop and discards what was collected.
\<close>

definition resolveEvents :: "env \<Rightarrow> string \<Rightarrow> CollectionAsset \<Rightarrow> world \<Rightarrow>
    ((error + AssetEvent list) \<times> world) option" where
  "resolveEvents env apiKey asset w =
     (case fetchWithPagination (eventsFetcher env apiKey asset) None [] w of
        None \<Rightarrow> None
      | Some ((pages, Some e), w') \<Rightarrow> Some (Inl e, w')
      | Some ((pages, None), w') \<Rightarrow>
          Some (Inr (concat (map (\<lambda>result.
                   map (\<lambda>assetEvent. assetEvent\<lparr>event_asset := None\<rparr>)
                       (orEmpty (payload result))) pages)), w'))"

definition resolveOwners :: "env \<Rightarrow> string \<Rightarrow> CollectionAsset \<Rightarrow> world \<Rightarrow>
    ((error + Owner list) \<times> world) option" where
  "resolveOwners env apiKey asset w =
     (case fetchWithPagination (ownersFetcher env apiKey asset) None [] w of
        None \<Rightarrow> None
      | Some ((pages, Some e), w') \<Rightarrow> Some (Inl e, w')
      | Some ((pages, None), w') \<Rightarrow>
          Some (Inr (concat (map (\<lambda>ownerBatch. orEmpty (payload ownerBatch)) pages)), w'))"

subsection \<open>The join and the write\<close>

record enriched =
  en_asset :: CollectionAsset
  en_imageUrl :: url
  imageResponse :: "string response"
  en_events :: "AssetEvent list"
  en_owners :: "Owner list"

text \<open>\<open>asset.image_original_url ? asset.image_original_url : asset.image_url\<close>\<close>

definition imageSource :: "CollectionAsset \<Rightarrow> string option" where
  "imageSource asset =
     (if truthy (image_original_url asset) then image_original_url asset else image_url asset)"

text \<open>
  The function given to \<open>mergeMap\<close> (opensea.ts 142-266). The three \<open>await\<close>s stand in
  one object literal, so they run one after the other: image, events, owners.
  \<open>mkdir\<close> with \<open>recursive: true\<close> is taken to succeed; directories are not part of the
  file store.
\<close>

definition enrich :: "env \<Rightarrow> string \<Rightarrow> string \<Rightarrow> CollectionAsset \<Rightarrow> world \<Rightarrow>
    ((error + enriched) \<times> world) option" where
  "enrich env collectionSlug apiKey asset w =
     (case URL_new env (imageSource asset) of
        Inl e \<Rightarrow> Some (Inl e, w)
      | Inr u \<Rightarrow>
          (case resolveImage env asset u w of
             (Inl e, u', w1) \<Rightarrow> Some (Inl e, w1)
           | (Inr resp, u', w1) \<Rightarrow>
               (case resolveEvents env apiKey asset w1 of
                  None \<Rightarrow> None
                | Some (Inl e, w2) \<Rightarrow> Some (Inl e, w2)
                | Some (Inr evs, w2) \<Rightarrow>
                    (case resolveOwners env apiKey asset w2 of
                       None \<Rightarrow> None
                     | Some (Inl e, w3) \<Rightarrow> Some (Inl e, w3)
                     | Some (Inr ows, w3) \<Rightarrow>
                         Some (Inr \<lparr>en_asset = asset, en_imageUrl = u', imageResponse = resp,
                                     en_events = evs, en_owners = ows\<rparr>, w3)))))"

definition imageFile :: "env \<Rightarrow> enriched \<Rightarrow> string" where
  "imageFile env en =
     token_id (en_asset en) @ ''.'' @
     (case extension env (case content_type (imageResponse en) of None \<Rightarrow> [] | Some c \<Rightarrow> c) of
        None \<Rightarrow> ''false''
      | Some e \<Rightarrow> e)"

definition imagePath :: "env \<Rightarrow> enriched \<Rightarrow> string" where
  "imagePath env en = ''./.metadata/'' @ collection_slug (en_asset en) @ ''/'' @ imageFile env en"

definition jsonPath :: "enriched \<Rightarrow> string" where
  "jsonPath en =
     ''./.metadata/'' @ collection_slug (en_asset en) @ ''/'' @ token_id (en_asset en) @ ''.json''"

definition harvestedRecord :: "env \<Rightarrow> enriched \<Rightarrow> IOpenSeaMetadata" where
  "harvestedRecord env en =
     \<lparr>md_name = asset_name (en_asset en),
      md_description = asset_description (en_asset en),
      image = ''./'' @ imageFile env en,
      attributes = traits (en_asset en),
      owners = Some (en_owners en),
      events = Some (en_events en),
      md_id = None,
      original_creation_date = None\<rparr>"

text \<open>
  The function given to \<open>tap\<close> (opensea.ts 267-291), as far as the file store goes: a
  step that fails stops the rest of this function.
\<close>

definition writeHarvest :: "env \<Rightarrow> enriched \<Rightarrow> world \<Rightarrow> world" where
  "writeHarvest env en w =
     (case body (imageResponse en) of
        None \<Rightarrow> w
      | Some bytes \<Rightarrow>
          if \<not> writable env (imagePath env en) then w
          else
            (let w1 = w\<lparr>files := (files w)(imagePath env en \<mapsto> ImageFile bytes)\<rparr>
             in if \<not> writable env (jsonPath en) then w1
                else w1\<lparr>files := (files w1)(jsonPath en \<mapsto> JsonFile (harvestedRecord env en))\<rparr>))"

definition processAsset :: "env \<Rightarrow> string \<Rightarrow> string \<Rightarrow> CollectionAsset \<Rightarrow> world \<Rightarrow>
    ((error + enriched) \<times> world) option" where
  "processAsset env collectionSlug apiKey asset w =
     (case enrich env collectionSlug apiKey asset w of
        None \<Rightarrow> None
      | Some (Inl e, w1) \<Rightarrow> Some (Inl e, w1)
      | Some (Inr en, w1) \<Rightarrow> Some (Inr en, writeHarvest env en w1))"

section \<open>HarvestCoordinator\<close>

text \<open>
  \<open>downloadMetadata\<close> (opensea.ts 127-343) starts two activities that share the subject
  \<open>incomingAssets\<close>: the listing loop (305-335), which awaits one page after the other and
  pushes the assets of each page, and the subscription (137-303), which enriches the pushed
  assets one at a time and writes each. Which of the two comes next depends on the network, so
  the order is a parameter of the model, a schedule of turns: a listing turn is the arrival
  of the next page, after the retries it took; a subscription turn is the moment at which the
  enrichment of the oldest waiting asset settles. An endpoint's answer depends only on the
  request and on how often it was sent before, so the effects of an activity may be recorded
  at its turn.
\<close>

datatype turn = ListingTurn | SubscriptionTurn

datatype listing_state =
    Listing                      \<comment> \<open>inside the \<open>for await\<close> loop\<close>
  | Ended                        \<comment> \<open>the loop is left: \<open>complete()\<close> is called and \<open>finished\<close> awaited\<close>
  | Failed error                 \<comment> \<open>the loop threw\<close>

datatype subscription_state =
    Subscribed
  | Errored error                \<comment> \<open>an enrichment rejected: \<open>finished\<close> is rejected with its error\<close>

datatype settled = Pending | Resolved | Rejected error

text \<open>
  A promise that is rejected while no handler is attached to it is an unhandled rejection.
  What the platform does with one is its mode: \<open>Throw\<close>, the default since Node 15, raises
  the error as an uncaught exception, which ends the process; \<open>Warn\<close>, the default before,
  prints a warning and goes on.
\<close>

datatype rejections = Throw | Warn

record harvest =
  world_now :: world
  nextCursor :: "string option"                \<comment> \<open>\<open>next\<close> of the listing\<close>
  listing :: listing_state
  queue :: "CollectionAsset list"          \<comment> \<open>the assets pushed and not yet settled, oldest first\<close>
  subscription :: subscription_state
  promise :: settled                       \<comment> \<open>the promise that \<open>downloadMetadata\<close> returned\<close>
  exited :: "error option"                 \<comment> \<open>the process was ended by this uncaught error\<close>

definition unhandledRejection :: "rejections \<Rightarrow> error \<Rightarrow> harvest \<Rightarrow> harvest" where
  "unhandledRejection mode err h = (case mode of Throw \<Rightarrow> h\<lparr>exited := Some err\<rparr> | Warn \<Rightarrow> h)"

text \<open>
  Lines 337-342, reached when the listing loop is left: \<open>try { await finished } catch (err)
  { console.error(err) }\<close>. This is the only place where a handler is attached to
  \<open>finished\<close>. As long as assets wait, \<open>finished\<close> is pending and so is the function.
\<close>

definition awaitFinished :: "harvest \<Rightarrow> harvest" where
  "awaitFinished h =
     (case subscription h of
        Errored err \<Rightarrow>
          h\<lparr>world_now := (world_now h)\<lparr>trace := trace (world_now h) @ [ConsoleError err]\<rparr>,
            promise := Resolved\<rparr>
      | Subscribed \<Rightarrow> if queue h = [] then h\<lparr>promise := Resolved\<rparr> else h)"

text \<open>
  One round of the listing loop: the body of the generator \<open>fetchWithPagination\<close>
  (113-124) with the body of the \<open>for await\<close> (331-335). An error leaves the loop and
  rejects \<open>downloadMetadata\<close>, before line 339 is reached. A subject whose subscriber has
  errored drops what is pushed.
\<close>

definition listingTurn :: "env \<Rightarrow> string \<Rightarrow> string \<Rightarrow> harvest \<Rightarrow> harvest" where
  "listingTurn env collectionSlug apiKey h =
     (case listing h of
        Listing \<Rightarrow>
          (case retryWithBackoff (assetsFetcher env collectionSlug apiKey (nextCursor h)) 5 250 (world_now h) of
             (Inl e, w') \<Rightarrow> h\<lparr>world_now := w', listing := Failed e, promise := Rejected e\<rparr>
           | (Inr batchAssets, w') \<Rightarrow>
               (let h1 = h\<lparr>world_now := w',
                           queue := (case subscription h of
                                       Subscribed \<Rightarrow> queue h @ orEmpty (payload batchAssets)
                                     | Errored _ \<Rightarrow> [])\<rparr>
                in if truthy (page_next batchAssets) then h1\<lparr>nextCursor := page_next batchAssets\<rparr>
                   else awaitFinished (h1\<lparr>listing := Ended\<rparr>)))
      | _ \<Rightarrow> h)"

text \<open>
  The function given to \<open>tap\<close> is asynchronous and nobody awaits the promise it returns:
  when reading the image body or one of the two writes fails, that promise is rejected
  unhandled, with this error.
\<close>

definition writeError :: "env \<Rightarrow> enriched \<Rightarrow> error option" where
  "writeError env en =
     (case body (imageResponse en) of
        None \<Rightarrow> Some FetchError
      | Some bytes \<Rightarrow>
          if writable env (imagePath env en) \<and> writable env (jsonPath en) then None
          else Some EACCES)"

text \<open>
  The enrichment of the oldest waiting asset settles. \<open>mergeMap\<close> with concurrency 1 has
  started it when the one before settled. If it rejects, the stream errors: the subscription
  ends, the assets still waiting are dropped and \<open>finished\<close> is rejected, which is caught
  at line 340 if the listing loop has been left and is an unhandled rejection if not. If it
  succeeds, the write is started, and \<open>finished\<close> is resolved when no asset is left and the
  subject is complete.
\<close>

definition subscriptionTurn :: "env \<Rightarrow> rejections \<Rightarrow> string \<Rightarrow> string \<Rightarrow> harvest \<Rightarrow> harvest option" where
  "subscriptionTurn env mode collectionSlug apiKey h =
     (case (subscription h, queue h) of
        (Subscribed, asset # waiting) \<Rightarrow>
          (case processAsset env collectionSlug apiKey asset (world_now h) of
             None \<Rightarrow> None
           | Some (Inl err, w') \<Rightarrow>
               (let h1 = h\<lparr>world_now := w', queue := [], subscription := Errored err\<rparr>
                in Some (if listing h = Ended then awaitFinished h1
                         else unhandledRejection mode err h1))
           | Some (Inr en, w') \<Rightarrow>
               (let h1 = h\<lparr>world_now := w', queue := waiting\<rparr>;
                    h2 = (if listing h = Ended then awaitFinished h1 else h1)
                in Some (case writeError env en of
                           None \<Rightarrow> h2
                         | Some err \<Rightarrow> unhandledRejection mode err h2)))
      | _ \<Rightarrow> Some h)"

definition takeTurn :: "env \<Rightarrow> rejections \<Rightarrow> string \<Rightarrow> string \<Rightarrow> turn \<Rightarrow> harvest \<Rightarrow> harvest option" where
  "takeTurn env mode collectionSlug apiKey t h =
     (case t of
        ListingTurn \<Rightarrow> Some (listingTurn env collectionSlug apiKey h)
      | SubscriptionTurn \<Rightarrow> subscriptionTurn env mode collectionSlug apiKey h)"

text \<open>
  The run follows the schedule until \<open>downloadMetadata\<close> has settled or the process has
  ended; what the subscription still does after a listing that failed is not followed.
  \<open>None\<close> is an enrichment that never ends. Every order in which the pages of a harvest
  arrive and its enrichments settle is a schedule; the schedules also hold orders that the
  timing of a given harvest rules out, such as a page arriving before an enrichment that
  fails without waiting for anything (on an asset without image URL) has settled.
\<close>

definition running :: "harvest \<Rightarrow> bool" where
  "running h \<longleftrightarrow> promise h = Pending \<and> exited h = None"

fun run :: "env \<Rightarrow> rejections \<Rightarrow> string \<Rightarrow> string \<Rightarrow> turn list \<Rightarrow> harvest \<Rightarrow> harvest option" where
  "run env mode collectionSlug apiKey [] h = Some h"
| "run env mode collectionSlug apiKey (t # schedule) h =
     (if \<not> running h then Some h
      else case takeTurn env mode collectionSlug apiKey t h of
             None \<Rightarrow> None
           | Some h' \<Rightarrow> run env mode collectionSlug apiKey schedule h')"

definition started :: "world \<Rightarrow> harvest" where
  "started w = \<lparr>world_now = w, nextCursor = None, listing = Listing, queue = [],
                subscription = Subscribed, promise = Pending, exited = None\<rparr>"

definition downloadMetadata :: "env \<Rightarrow> rejections \<Rightarrow> string \<Rightarrow> string \<Rightarrow> turn list \<Rightarrow> world \<Rightarrow>
    harvest option" where
  "downloadMetadata env mode collectionSlug apiKey schedule w =
     run env mode collectionSlug apiKey schedule (started w)"

text \<open>
  What holds of every state of a run. \<open>downloadMetadata\<close> is rejected only by the listing
  and has completed only after the listing loop was left. The process has ended only where
  unhandled rejections are fatal. Once an enrichment has failed, no asset waits; if the
  listing loop has been left the error is the last thing printed and \<open>downloadMetadata\<close> has
  completed, and if not, the rejection was unhandled.
\<close>

definition settles :: "rejections \<Rightarrow> harvest \<Rightarrow> bool" where
  "settles mode h \<longleftrightarrow>
     (\<forall>e. promise h = Rejected e \<longrightarrow> listing h = Failed e)
   \<and> (promise h = Resolved \<longrightarrow> listing h = Ended)
   \<and> (exited h \<noteq> None \<longrightarrow> mode = Throw)
   \<and> (\<forall>e. subscription h = Errored e \<longrightarrow>
         queue h = []
       \<and> (if listing h = Ended
          then promise h = Resolved \<and> exited h = None
             \<and> trace (world_now h) \<noteq> [] \<and> last (trace (world_now h)) = ConsoleError e
          else case mode of Throw \<Rightarrow> exited h = Some e | Warn \<Rightarrow> exited h = None))"

text \<open>The assets of a list of pages, in the order of the listing.\<close>

definition listedAssets :: "CollectionAsset list option page list \<Rightarrow> CollectionAsset list" where
  "listedAssets pages = concat (map (\<lambda>batchAssets. orEmpty (payload batchAssets)) pages)"

section \<open>Endpoints and inputs used in the examples\<close>

text \<open>
  An endpoint that holds a list of items and serves it in pages of \<open>P\<close>, whatever the
  API key. Its cursor for offset \<open>n\<close> is a string of \<open>n\<close> characters; the first page
  has no cursor.
\<close>

definition offsetOf :: "(string \<Rightarrow> nat) \<Rightarrow> string option \<Rightarrow> nat" where
  "offsetOf dec c = (case c of None \<Rightarrow> 0 | Some s \<Rightarrow> dec s)"

definition unaryCursor :: "nat \<Rightarrow> string" where
  "unaryCursor n = replicate n CHR ''c''"

definition cursorOf :: "request \<Rightarrow> string option" where
  "cursorOf r = (case r of GetAssets _ _ c \<Rightarrow> c | GetEvents _ _ _ c \<Rightarrow> c
                 | GetOwners _ _ _ c \<Rightarrow> c | _ \<Rightarrow> None)"

definition pagedApi :: "'i list \<Rightarrow> nat \<Rightarrow> request \<Rightarrow> nat \<Rightarrow> 'i list option page response option" where
  "pagedApi items P r n =
     (let off = offsetOf length (cursorOf r)
      in Some \<lparr>status = 200, retry_after = None, content_type = None,
               body = Some \<lparr>page_next = (if off + P < length items
                                           then Some (unaryCursor (off + P)) else None),
                            page_previous = None,
                            payload = Some (take P (drop off items))\<rparr>\<rparr>)"

definition noApi :: "request \<Rightarrow> nat \<Rightarrow> 'b response option" where
  "noApi r n = None"

definition testEnv :: env where
  "testEnv = \<lparr>assets_api = noApi, events_api = noApi, owners_api = noApi, image_host = noApi,
              writable = (\<lambda>p. True),
              extension = (\<lambda>ct. if ct = ''image/png'' then Some ''png'' else None),
              parseURL = (\<lambda>s. None), strips_spaces = True\<rparr>"

definition testAsset :: "string \<Rightarrow> CollectionAsset" where
  "testAsset tid = \<lparr>token_id = tid, image_url = Some ''https://img.example/gae/abc?w=500'',
                     image_original_url = None, asset_name = ''Hunny #'' @ tid,
                     asset_description = ''A bunny'', traits = Some [],
                     asset_contract_address = ''0xabc'', collection_slug = ''slug''\<rparr>"

definition world0 :: world where
  "world0 = \<lparr>trace = [], files = Map.empty\<rparr>"

text \<open>An asset that the marketplace lists without any image.\<close>

definition plainAsset :: CollectionAsset where
  "plainAsset = (testAsset ''6'')\<lparr>image_url := None\<rparr>"

text \<open>
  What it means for a fetcher to serve \<open>items\<close> in pages of \<open>P\<close>: called with the
  cursor of an offset, it sends the request \<open>mk c\<close>, and returns the page of the next
  \<open>P\<close> items together with the cursor of the following offset when items remain.
\<close>

definition servesPages ::
  "(string option \<Rightarrow> ('z, 't page) io) \<Rightarrow> (string option \<Rightarrow> request) \<Rightarrow> ('t page \<Rightarrow> 'i list) \<Rightarrow>
   (nat \<Rightarrow> string) \<Rightarrow> (string \<Rightarrow> nat) \<Rightarrow> 'i list \<Rightarrow> nat \<Rightarrow> bool" where
  "servesPages fetcher mk itemsOf enc dec items P \<longleftrightarrow>
     (\<forall>c w. \<exists>pg. fetcher c w = (Inr pg, w\<lparr>trace := trace w @ [Fetch (mk c)]\<rparr>)
        \<and> itemsOf pg = take P (drop (offsetOf dec c) items)
        \<and> page_next pg = (if offsetOf dec c + P < length items
                           then Some (enc (offsetOf dec c + P)) else None))"

definition threeAssets :: "CollectionAsset list" where
  "threeAssets = [testAsset ''1'', testAsset ''2'', testAsset ''3'']"

definition listingEnv :: "CollectionAsset list \<Rightarrow> nat \<Rightarrow> env" where
  "listingEnv items P = testEnv\<lparr>assets_api := pagedApi items P\<rparr>"

definition assetsRequest :: "string \<Rightarrow> string \<Rightarrow> string option \<Rightarrow> request" where
  "assetsRequest apiKey collectionSlug next =
     GetAssets apiKey collectionSlug (if truthy next then next else None)"

definition pageItems :: "'i list option page \<Rightarrow> 'i list" where
  "pageItems pg = orEmpty (payload pg)"

definition emptyPage :: "CollectionAsset list option page" where
  "emptyPage = \<lparr>page_next = None, page_previous = None, payload = Some []\<rparr>"

text \<open>
  The trace of a run of rate-limited attempts: each is the request, then the wait the
  server asked for, then the backoff delay of the retry policy, which grows.
\<close>

fun backoffTrace :: "request \<Rightarrow> nat \<Rightarrow> nat list \<Rightarrow> event list" where
  "backoffTrace r d [] = []"
| "backoffTrace r d (h # hs) =
     [Fetch r, Sleep (h * 1000), Sleep d] @ backoffTrace r (d * backoffFactor) hs"

definition rateLimitedWith :: "(request \<Rightarrow> nat \<Rightarrow> 'b response option) \<Rightarrow> request \<Rightarrow> nat \<Rightarrow> nat list \<Rightarrow> bool" where
  "rateLimitedWith api r n0 hs \<longleftrightarrow>
     (\<forall>i<length hs. \<exists>resp. api r (n0 + i) = Some resp \<and> status resp = 429 \<and> 0 < hs ! i \<and>
           parseInt (case retry_after resp of None \<Rightarrow> ''0'' | Some s \<Rightarrow> s) = Some (int (hs ! i)))"

text \<open>An endpoint that is rate limited \<open>k\<close> times, with the hint \<open>h\<close>, and then answers.\<close>

definition limitedApi :: "nat \<Rightarrow> string \<Rightarrow> 'b \<Rightarrow> request \<Rightarrow> nat \<Rightarrow> 'b response option" where
  "limitedApi k h b r n =
     (if n < k then Some \<lparr>status = 429, retry_after = Some h, content_type = None, body = None\<rparr>
      else Some \<lparr>status = 200, retry_after = None, content_type = None, body = Some b\<rparr>)"

text \<open>
  The requests of a trace, in order; and what one attempt does to a path of segments before
  it appends the suffix.
\<close>

definition fetched :: "event list \<Rightarrow> request list" where
  "fetched t = concat (map (\<lambda>e. case e of Fetch r \<Rightarrow> [r] | _ \<Rightarrow> []) t)"

definition stripGae :: "string \<Rightarrow> string" where
  "stripGae p = rooted (replaceFirst ''/gae/'' ''/'' p)"

text \<open>An image host that answers 500 to every URL but the one of the third attempt.\<close>

definition testUrl :: url where
  "testUrl = \<lparr>protocol = ''https:'', url_username = [], url_password = [],
              hostname = Some ''img.example'', port = [], opaque = False,
              pathname = ''/gae/abc'', search = ''?w=500'', url_hash = []\<rparr>"

text \<open>An image held in the URL itself, as the metadata of on-chain tokens has it.\<close>

definition dataUrl :: url where
  "dataUrl = \<lparr>protocol = ''data:'', url_username = [], url_password = [],
              hostname = None, port = [], opaque = True,
              pathname = ''image/png;base64,iVBORw0KGgoA'', search = [], url_hash = []\<rparr>"

definition pngResponse :: "nat \<Rightarrow> string response" where
  "pngResponse st = \<lparr>status = st, retry_after = None, content_type = Some ''image/png'',
                      body = Some ''PNG''\<rparr>"

definition thirdTimeHost :: "request \<Rightarrow> nat \<Rightarrow> string response option" where
  "thirdTimeHost r n =
     (if r = GetImage ''https://lh3.googleusercontent.com/abc=d=d=d'' then Some (pngResponse 200)
      else Some (pngResponse 500))"

definition thirdTimeEnv :: env where
  "thirdTimeEnv = testEnv\<lparr>image_host := thirdTimeHost\<rparr>"

text \<open>
  The write of an enriched asset goes through: the image body could be read and both paths
  can be written.
\<close>

definition commits :: "env \<Rightarrow> enriched \<Rightarrow> bool" where
  "commits env en \<longleftrightarrow>
     body (imageResponse en) \<noteq> None \<and> writable env (imagePath env en) \<and> writable env (jsonPath en)"

text \<open>
  A marketplace with one asset per page, two events (one per page) and one owner for every
  asset, and two image hosts: one that serves the once-rewritten URL the first time it is
  asked and fails ever after, one that always fails. The worlds and records below are what
  a harvest of the assets 7 and 8 from it goes through.
\<close>

definition testEvents :: "AssetEvent list" where
  "testEvents =
     [\<lparr>event_asset = Some (testAsset ''7''), event_type = ''created'', created_date = ''2021-01-05T10:00:00''\<rparr>,
      \<lparr>event_asset = Some (testAsset ''7''), event_type = ''transfer'', created_date = ''2021-03-01T09:30:00''\<rparr>]"

definition testOwners :: "Owner list" where
  "testOwners = [\<lparr>owner_quantity = ''1'', owner_created_date = ''2021-03-01T09:30:00'',
                   owner = \<lparr>username = ''flick'', address = ''0x01''\<rparr>\<rparr>]"

definition onceHost :: "request \<Rightarrow> nat \<Rightarrow> string response option" where
  "onceHost r n =
     (if r = GetImage ''https://lh3.googleusercontent.com/abc=d'' \<and> n = 0 then Some (pngResponse 200)
      else Some (pngResponse 500))"

definition failingHost :: "request \<Rightarrow> nat \<Rightarrow> string response option" where
  "failingHost r n = Some (pngResponse 500)"

definition harvestEnv :: "CollectionAsset list \<Rightarrow> (request \<Rightarrow> nat \<Rightarrow> string response option) \<Rightarrow> env" where
  "harvestEnv assets host =
     \<lparr>assets_api = pagedApi assets 1, events_api = pagedApi testEvents 1,
      owners_api = pagedApi testOwners 1, image_host = host,
      writable = (\<lambda>p. True),
      extension = (\<lambda>ct. if ct = ''image/png'' then Some ''png'' else None),
      parseURL = (\<lambda>s. if s = ''https://img.example/gae/abc?w=500'' then Some testUrl else None),
      strips_spaces = True\<rparr>"


definition listingTrace :: "event list" where
  "listingTrace = [Fetch (GetAssets ''key'' ''slug'' None), Fetch (GetAssets ''key'' ''slug'' (Some ''c''))]"

definition asset7Trace :: "event list" where
  "asset7Trace = [Fetch (GetImage ''https://lh3.googleusercontent.com/abc=d''),
                  Fetch (GetEvents ''key'' ''0xabc'' ''7'' None),
                  Fetch (GetEvents ''key'' ''0xabc'' ''7'' (Some ''c'')),
                  Fetch (GetOwners ''key'' ''0xabc'' ''7'' None)]"

definition asset8Trace :: "event list" where
  "asset8Trace = [Fetch (GetImage ''https://lh3.googleusercontent.com/abc=d''), Sleep 250,
                  Fetch (GetImage ''https://lh3.googleusercontent.com/abc=d=d''), Sleep 500,
                  Fetch (GetImage ''https://lh3.googleusercontent.com/abc=d=d=d''), Sleep 1000,
                  Fetch (GetImage ''https://lh3.googleusercontent.com/abc=d=d=d=d''), Sleep 2000,
                  Fetch (GetImage ''https://lh3.googleusercontent.com/abc=d=d=d=d=d'')]"

definition asset7Enriched :: enriched where
  "asset7Enriched =
     \<lparr>en_asset = testAsset ''7'',
      en_imageUrl = testUrl\<lparr>hostname := Some ''lh3.googleusercontent.com'', pathname := ''/abc=d'', search := []\<rparr>,
      imageResponse = pngResponse 200,
      en_events = map (\<lambda>e. e\<lparr>event_asset := None\<rparr>) testEvents,
      en_owners = testOwners\<rparr>"

definition asset7Record :: IOpenSeaMetadata where
  "asset7Record =
     \<lparr>md_name = ''Hunny #7'', md_description = ''A bunny'', image = ''./7.png'',
      attributes = Some [], owners = Some testOwners,
      events = Some (map (\<lambda>e. e\<lparr>event_asset := None\<rparr>) testEvents),
      md_id = None, original_creation_date = None\<rparr>"

definition asset7Files :: "string \<rightharpoonup> stored" where
  "asset7Files = [''./.metadata/slug/7.png'' \<mapsto> ImageFile ''PNG'',
                  ''./.metadata/slug/7.json'' \<mapsto> JsonFile asset7Record]"

section \<open>The scheduling of enrichments\<close>

text \<open>
  The harvest starts enrichments through \<open>mergeMap(project, 1)\<close> (opensea.ts 142-266).
  What that operator of the reactive-streams library does with its second argument is
  modelled as a state machine: the values whose inner subscription is in flight, the values
  buffered, and whether the subscription has ended. \<open>outerNext\<close> is a value arriving
  from the subject (\<open>incomingAssets.next(asset)\<close>), \<open>innerComplete\<close> the promise of an
  enrichment resolving, after which buffered values are started while there is room, and
  \<open>innerError\<close> that promise rejecting, which ends the subscription.
  \<open>enrichmentConcurrency\<close> is the literal \<open>1\<close> of line 266.
\<close>

record 'a mergeMapState =
  active :: "'a list"
  buffer :: "'a list"
  closed :: bool

definition doInnerSub :: "'a \<Rightarrow> 'a mergeMapState \<Rightarrow> 'a mergeMapState" where
  "doInnerSub v s = s\<lparr>active := active s @ [v]\<rparr>"

definition outerNext :: "nat \<Rightarrow> 'a \<Rightarrow> 'a mergeMapState \<Rightarrow> 'a mergeMapState" where
  "outerNext concurrent v s =
     (if closed s then s
      else if length (active s) < concurrent then doInnerSub v s
      else s\<lparr>buffer := buffer s @ [v]\<rparr>)"

function drainBuffer :: "nat \<Rightarrow> 'a mergeMapState \<Rightarrow> 'a mergeMapState" where
  "drainBuffer concurrent s =
     (if buffer s \<noteq> [] \<and> length (active s) < concurrent
      then drainBuffer concurrent (doInnerSub (hd (buffer s)) (s\<lparr>buffer := tl (buffer s)\<rparr>))
      else s)"
  by pat_completeness auto
termination
  by (relation "measure (\<lambda>(c, s). length (buffer s))") (auto simp: doInnerSub_def)

definition innerComplete :: "nat \<Rightarrow> 'a \<Rightarrow> 'a mergeMapState \<Rightarrow> 'a mergeMapState" where
  "innerComplete concurrent v s = drainBuffer concurrent (s\<lparr>active := remove1 v (active s)\<rparr>)"

definition innerError :: "'a \<Rightarrow> 'a mergeMapState \<Rightarrow> 'a mergeMapState" where
  "innerError v s = s\<lparr>active := [], buffer := [], closed := True\<rparr>"

definition enrichmentConcurrency :: nat where
  "enrichmentConcurrency = 1"

inductive reachable :: "nat \<Rightarrow> 'a mergeMapState \<Rightarrow> bool" for concurrent :: nat where
  subscribed: "reachable concurrent \<lparr>active = [], buffer = [], closed = False\<rparr>"
| pushed: "reachable concurrent s \<Longrightarrow> reachable concurrent (outerNext concurrent v s)"
| settled: "reachable concurrent s \<Longrightarrow> v \<in> set (active s) \<Longrightarrow>
            reachable concurrent (innerComplete concurrent v s)"
| failed: "reachable concurrent s \<Longrightarrow> v \<in> set (active s) \<Longrightarrow>
            reachable concurrent (innerError v s)"

section \<open>CorpusNormalizer\<close>

text \<open>
  \<open>prepareMetadata\<close> exists twice in the repository: \<open>src/cli/commands/metadataPrepare.ts\<close>
  writes a flat output directory and orders the records by their oldest owner; the other
  file (\<open>src/unnamed/part_002\<close>) writes \<open>assets/\<close> and \<open>metadata/\<close>, orders the input files
  by the number in their name, and adds the identifier, the creation date and the derived
  attributes. The second is modelled as \<open>prepareMetadata\<close>, the first as
  \<open>prepareMetadataFlat\<close>.
\<close>

subsection \<open>Strings, paths and numbers of the platform\<close>

text \<open>
  \<open>a < b\<close> on strings compares code units lexicographically; on the ASCII strings of the
  corpus (ISO dates) these are the characters.
\<close>

fun str_lt :: "string \<Rightarrow> string \<Rightarrow> bool" where
  "str_lt [] [] = False"
| "str_lt [] (y # ys) = True"
| "str_lt (x # xs) [] = False"
| "str_lt (x # xs) (y # ys) =
     ((of_char x :: nat) < of_char y \<or> (x = y \<and> str_lt xs ys))"

text \<open>\<open>s.includes(pat)\<close> and \<open>s.endsWith(pat)\<close>.\<close>

primrec includes_str :: "string \<Rightarrow> string \<Rightarrow> bool" where
  "includes_str [] pat = (pat = [])"
| "includes_str (c # cs) pat = (prefix pat (c # cs) \<or> includes_str cs pat)"

definition endsWith :: "string \<Rightarrow> string \<Rightarrow> bool" where
  "endsWith s pat = suffix pat s"

text \<open>\<open>String(n)\<close> of a natural number.\<close>

function decimal :: "nat \<Rightarrow> string" where
  "decimal n = (if n < 10 then [char_of (48 + n)]
                else decimal (n div 10) @ [char_of (48 + n mod 10)])"
  by pat_completeness auto
termination
  by (relation "measure id") auto

declare decimal.simps [simp del]

text \<open>
  \<open>basename(name, ".json")\<close> of a directory entry (which has no directory part): the
  suffix is removed unless it is the whole name. \<open>extname(path)\<close>: from the last dot of
  the last path component, empty when there is none or when the component starts with its
  only dot.
\<close>

definition basename :: "string \<Rightarrow> string \<Rightarrow> string" where
  "basename name ext =
     (if suffix ext name \<and> name \<noteq> ext then take (length name - length ext) name else name)"

definition lastComponent :: "string \<Rightarrow> string" where
  "lastComponent p = rev (takeWhile (\<lambda>c. c \<noteq> CHR ''/'') (rev p))"

definition extname :: "string \<Rightarrow> string" where
  "extname p =
     (let b = lastComponent p;
          e = rev (takeWhile (\<lambda>c. c \<noteq> CHR ''.'') (rev b))
      in if CHR ''.'' \<notin> set b \<or> length e + 1 = length b \<or> b = ''..'' then []
         else CHR ''.'' # e)"

text \<open>
  \<open>BigNumber.from(s)\<close> of ethers accepts a decimal integer with an optional minus sign
  (and hexadecimal strings, which no file of a corpus is named after and which the model
  rejects); \<open>toNumber()\<close> throws beyond 53 bits.
\<close>

definition BigNumber_from :: "string \<Rightarrow> error + int" where
  "BigNumber_from s =
     (let neg = (s \<noteq> [] \<and> hd s = CHR ''-'');
          ds = (if neg then tl s else s)
      in if ds \<noteq> [] \<and> list_all is_digit ds
         then Inr (if neg then - int (digits_val ds) else int (digits_val ds))
         else Inl InvalidBigNumber)"

definition toNumber :: "int \<Rightarrow> error + int" where
  "toNumber x = (if \<bar>x\<bar> < 2 ^ 53 then Inr x else Inl Overflow)"

text \<open>
  \<open>Array.prototype.sort(compare)\<close>. The language fixes the result for a consistent
  comparator (the sort is stable) but not the comparisons made. The model is the insertion
  sort that engines run on short arrays: the elements are taken from left to right, and
  each is inserted into the sorted part before the first element it compares less than.
  A comparator that throws ends the sort.
\<close>

fun insertBy :: "('a \<Rightarrow> 'a \<Rightarrow> error + int) \<Rightarrow> 'a \<Rightarrow> 'a list \<Rightarrow> error + 'a list" where
  "insertBy compare pivot [] = Inr [pivot]"
| "insertBy compare pivot (y # ys) =
     (case compare pivot y of
        Inl e \<Rightarrow> Inl e
      | Inr order \<Rightarrow>
          if order < 0 then Inr (pivot # y # ys)
          else (case insertBy compare pivot ys of Inl e \<Rightarrow> Inl e | Inr zs \<Rightarrow> Inr (y # zs)))"

fun sortInto :: "('a \<Rightarrow> 'a \<Rightarrow> error + int) \<Rightarrow> 'a list \<Rightarrow> 'a list \<Rightarrow> error + 'a list" where
  "sortInto compare done [] = Inr done"
| "sortInto compare done (x # xs) =
     (case insertBy compare x done of
        Inl e \<Rightarrow> Inl e
      | Inr done' \<Rightarrow> sortInto compare done' xs)"

definition sortBy :: "('a \<Rightarrow> 'a \<Rightarrow> error + int) \<Rightarrow> 'a list \<Rightarrow> error + 'a list" where
  "sortBy compare xs = sortInto compare [] xs"

text \<open>\<open>xs.reduce(f)\<close> without an initial value: a \<open>TypeError\<close> on the empty array.\<close>

definition reduce :: "('a \<Rightarrow> 'a \<Rightarrow> 'a) \<Rightarrow> 'a list \<Rightarrow> error + 'a" where
  "reduce f xs = (case xs of [] \<Rightarrow> Inl TypeError | x # rest \<Rightarrow> Inr (foldl f x rest))"

subsection \<open>The environment and the options\<close>

text \<open>
  The placeholder search answers a request with the URLs of a page and the total count;
  the image host with the bytes. \<open>Date_parse\<close> is \<open>new Date(s)\<close>, the time value or
  \<open>None\<close> for an invalid date; the two formatters are the platform's, in its locale and
  time zone.
\<close>

record normEnv =
  giphy_api :: "request \<Rightarrow> nat \<Rightarrow> (string list \<times> nat) option"
  gif_host :: "request \<Rightarrow> nat \<Rightarrow> string response option"
  Date_parse :: "string \<Rightarrow> int option"
  toLocaleDateString :: "int \<Rightarrow> string"
  toISOString :: "int \<Rightarrow> string"

record options =
  giphyApiKey :: "string option"
  giphySearchTerm :: "string option"
  inDir :: string
  outDir :: string
  testImages :: bool
  hunnys :: bool
  mintAttribute :: bool

subsection \<open>The placeholder stream\<close>

text \<open>
  \<open>randomGif\<close> is a generator: a page of ten search results at a time, of which the URLs
  that end in \<open>.gif\<close> before their query string are yielded. The state of the generator
  object is where it stands: not started, inside a page (offset, URLs of the page not yet
  looked at, total count), or finished. \<open>gifNext\<close> is one call of \<open>next()\<close>; it may run
  through any number of pages without a \<open>.gif\<close>, so it is partial.
\<close>

datatype gen = NotStarted | InPage nat "string list" nat | Finished

definition LIMIT :: nat where
  "LIMIT = 10"

definition fetchMore :: "normEnv \<Rightarrow> string \<Rightarrow> string \<Rightarrow> nat \<Rightarrow> ('z, string list \<times> nat) io" where
  "fetchMore env apiKey searchTerm cursor w =
     (let r = GiphySearch apiKey searchTerm cursor;
          n = count_list (trace w) (Fetch r);
          w' = w\<lparr>trace := trace w @ [Fetch r]\<rparr>
      in case giphy_api env r n of
           None \<Rightarrow> (Inl FetchError, w')
         | Some res \<Rightarrow> (Inr res, w'))"

definition isGif :: "string \<Rightarrow> bool" where
  "isGif u = endsWith (takeWhile (\<lambda>c. c \<noteq> CHR ''?'') u) ''.gif''"

partial_function (option) gifNext ::
  "normEnv \<Rightarrow> string \<Rightarrow> string \<Rightarrow> gen \<Rightarrow> 'z world_scheme \<Rightarrow>
   ((error + string option) \<times> gen \<times> 'z world_scheme) option"
where
  "gifNext env apiKey searchTerm g w =
     (case g of
        Finished \<Rightarrow> Some (Inr None, Finished, w)
      | NotStarted \<Rightarrow>
          (case fetchMore env apiKey searchTerm 0 w of
             (Inl e, w') \<Rightarrow> Some (Inl e, Finished, w')
           | (Inr (gifs, total_count), w') \<Rightarrow>
               gifNext env apiKey searchTerm (InPage 0 gifs total_count) w')
      | InPage offset [] total_count \<Rightarrow>
          if total_count \<le> offset + LIMIT then Some (Inr None, Finished, w)
          else
            (case fetchMore env apiKey searchTerm (offset + LIMIT) w of
               (Inl e, w') \<Rightarrow> Some (Inl e, Finished, w')
             | (Inr (gifs, total_count'), w') \<Rightarrow>
                 gifNext env apiKey searchTerm (InPage (offset + LIMIT) gifs total_count') w')
      | InPage offset (u # us) total_count \<Rightarrow>
          if isGif u then Some (Inr (Some u), InPage offset us total_count, w)
          else gifNext env apiKey searchTerm (InPage offset us total_count) w)"

text \<open>\<open>retryWithBackoff(() => fetch(next.value), 5, 250)\<close> and \<open>arrayBuffer()\<close>.\<close>

definition downloadGif :: "normEnv \<Rightarrow> string \<Rightarrow> ('z, string) io" where
  "downloadGif env u w =
     (case retryWithBackoff (fetch (gif_host env) (GetGif u)) 5 250 w of
        (Inl e, w1) \<Rightarrow> (Inl e, w1)
      | (Inr gifImageResponse, w1) \<Rightarrow>
          (case body gifImageResponse of
             None \<Rightarrow> (Inl FetchError, w1)
           | Some bytes \<Rightarrow> (Inr bytes, w1)))"

text \<open>\<open>fs.promises.stat(path).catch(() => false)\<close>, as a truth value.\<close>

definition exists :: "'z world_scheme \<Rightarrow> string \<Rightarrow> bool" where
  "exists w path = (files w path \<noteq> None)"

subsection \<open>One record\<close>

definition oldestOwnerReducer :: "AssetEvent \<Rightarrow> AssetEvent \<Rightarrow> AssetEvent" where
  "oldestOwnerReducer prev current =
     (if str_lt (created_date prev) (created_date current) then prev else current)"

text \<open>\<open>metadata.events?.reduce(oldestOwnerReducer)\<close> (part_002 line 95).\<close>

definition oldestEventOf :: "IOpenSeaMetadata \<Rightarrow> error + AssetEvent option" where
  "oldestEventOf metadata =
     (case events metadata of
        None \<Rightarrow> Inr None
      | Some evs \<Rightarrow>
          (case reduce oldestOwnerReducer evs of
             Inl e \<Rightarrow> Inl e
           | Inr oldestEvent \<Rightarrow> Inr (Some oldestEvent)))"

text \<open>
  The branch with a placeholder stream (part_002 lines 97-127). The file looked for is
  \<open>outDir/<i+1>.gif\<close>; the file written is \<open>outDir/assets/<i+1>.gif\<close>; the image field
  is assigned inside the \<open>if\<close>.
\<close>

definition substituteMedia :: "normEnv \<Rightarrow> options \<Rightarrow> string \<Rightarrow> nat \<Rightarrow> gen \<Rightarrow> IOpenSeaMetadata \<Rightarrow>
    world \<Rightarrow> ((error + IOpenSeaMetadata) \<times> gen \<times> world) option" where
  "substituteMedia env opts apiKey i g metadata w =
     (let gifImageName = decimal (i + 1) @ ''.gif''
      in if \<not> exists w (outDir opts @ ''/'' @ gifImageName) then
           (case gifNext env apiKey
                   (if truthy (giphySearchTerm opts) then the (giphySearchTerm opts) else ''ape'')
                   g w of
              None \<Rightarrow> None
            | Some (Inl e, g', w1) \<Rightarrow> Some (Inl e, g', w1)
            | Some (Inr None, g', w1) \<Rightarrow> Some (Inl RanOutOfGifs, g', w1)
            | Some (Inr (Some u), g', w1) \<Rightarrow>
                (case downloadGif env u w1 of
                   (Inl e, w2) \<Rightarrow> Some (Inl e, g', w2)
                 | (Inr gifImageBuffer, w2) \<Rightarrow>
                     Some (Inr (metadata\<lparr>image := gifImageName\<rparr>), g',
                           w2\<lparr>files := (files w2)(outDir opts @ ''/assets/'' @ gifImageName
                                                    \<mapsto> ImageFile gifImageBuffer)\<rparr>)))
         else Some (Inr metadata, g, w))"

text \<open>
  The branch without one (part_002 lines 128-138): the image of the record is copied from
  the input directory. \<open>pathResolve(inDir, image)\<close> drops a leading \<open>./\<close> of the image
  reference.
\<close>

definition resolveIn :: "string \<Rightarrow> string \<Rightarrow> string" where
  "resolveIn dir p = dir @ ''/'' @ (if prefix ''./'' p then drop 2 p else p)"

definition copyImage :: "options \<Rightarrow> nat \<Rightarrow> IOpenSeaMetadata \<Rightarrow> world \<Rightarrow>
    (error + IOpenSeaMetadata) \<times> world" where
  "copyImage opts i metadata w =
     (let newImageFileName = decimal (i + 1) @ extname (image metadata)
      in case files w (resolveIn (inDir opts) (image metadata)) of
           None \<Rightarrow> (Inl ENOENT, w)
         | Some f \<Rightarrow>
             (Inr (metadata\<lparr>image := newImageFileName\<rparr>),
              w\<lparr>files := (files w)(outDir opts @ ''/assets/'' @ newImageFileName \<mapsto> f)\<rparr>))"

text \<open>
  The rest of the loop body (part_002 lines 140-179), a function of the record, its oldest
  event and its position. \<open>attributes?.push\<close> appends only when the record has an attribute
  list.
\<close>

definition push :: "IMetadataAttribute \<Rightarrow> IOpenSeaMetadata \<Rightarrow> IOpenSeaMetadata" where
  "push a metadata =
     (case attributes metadata of
        None \<Rightarrow> metadata
      | Some as \<Rightarrow> metadata\<lparr>attributes := Some (as @ [a])\<rparr>)"

definition localeDate :: "normEnv \<Rightarrow> int option \<Rightarrow> string" where
  "localeDate env creationDate =
     (case creationDate of None \<Rightarrow> ''Invalid Date'' | Some t \<Rightarrow> toLocaleDateString env t)"

definition isoDate :: "normEnv \<Rightarrow> int option \<Rightarrow> error + string" where
  "isoDate env creationDate =
     (case creationDate of None \<Rightarrow> Inl RangeError | Some t \<Rightarrow> Inr (toISOString env t))"

definition provenanceSentence :: "string \<Rightarrow> string" where
  "provenanceSentence localeCreationDate =
     [CHR 0x0A, CHR 0x0A] @ ''This NFT was originally created on the OpenSea Storefront on ''
       @ localeCreationDate @ ''.''"

definition rewriteRecord :: "normEnv \<Rightarrow> options \<Rightarrow> nat \<Rightarrow> AssetEvent option \<Rightarrow> IOpenSeaMetadata \<Rightarrow>
    error + IOpenSeaMetadata" where
  "rewriteRecord env opts i oldestEvent metadata =
     (let creationDate = map_option (\<lambda>ev. Date_parse env (created_date ev)) oldestEvent;
          localeCreationDate = map_option (localeDate env) creationDate;
          m1 = (if hunnys opts then
                  (if includes_str (md_name metadata) ''Hunny #''
                   then push \<lparr>trait_type = ''Type'', attr_value = ''Classic''\<rparr> metadata
                   else push \<lparr>trait_type = ''Type'', attr_value = ''Named''\<rparr> metadata)
                else metadata);
          m2 = (if mintAttribute opts \<and> truthy localeCreationDate
                then push \<lparr>trait_type = ''Original Mint Date'',
                           attr_value = the localeCreationDate\<rparr> m1
                else m1);
          tokenId = i + 1;
          m3 = m2\<lparr>md_id := Some (decimal tokenId)\<rparr>
      in case (case creationDate of None \<Rightarrow> Inr None
               | Some d \<Rightarrow> (case isoDate env d of Inl e \<Rightarrow> Inl e | Inr s \<Rightarrow> Inr (Some s))) of
           Inl e \<Rightarrow> Inl e
         | Inr isoString \<Rightarrow>
             Inr (m3\<lparr>original_creation_date := isoString,
                     md_description :=
                       (if truthy localeCreationDate
                        then md_description m3 @ provenanceSentence (the localeCreationDate)
                        else md_description m3)\<rparr>))"

subsection \<open>The pass\<close>

text \<open>
  The media step (part_002 lines 97-138) and the loop of lines 91-187 over the parsed
  records, with the state of the placeholder stream (\<open>None\<close> when there is no stream).
  An error leaves the loop; what was written stays.
\<close>

definition resolveMedia :: "normEnv \<Rightarrow> options \<Rightarrow> nat \<Rightarrow> gen option \<Rightarrow> IOpenSeaMetadata \<Rightarrow>
    world \<Rightarrow> ((error + IOpenSeaMetadata) \<times> gen option \<times> world) option" where
  "resolveMedia env opts i gifIterator metadata w =
     (case gifIterator of
        Some g \<Rightarrow>
          (case substituteMedia env opts (the (giphyApiKey opts)) i g metadata w of
             None \<Rightarrow> None
           | Some (r, g', w1) \<Rightarrow> Some (r, Some g', w1))
      | None \<Rightarrow> (case copyImage opts i metadata w of (r, w1) \<Rightarrow> Some (r, None, w1)))"

fun prepareLoop :: "normEnv \<Rightarrow> options \<Rightarrow> nat \<Rightarrow> gen option \<Rightarrow> IOpenSeaMetadata list \<Rightarrow> world \<Rightarrow>
    ((error + unit) \<times> world) option" where
  "prepareLoop env opts i gifIterator [] w = Some (Inr (), w)"
| "prepareLoop env opts i gifIterator (metadata # rest) w =
     (case oldestEventOf metadata of
        Inl e \<Rightarrow> Some (Inl e, w)
      | Inr oldestEvent \<Rightarrow>
          (case resolveMedia env opts i gifIterator metadata w of
             None \<Rightarrow> None
           | Some (Inl e, _, w1) \<Rightarrow> Some (Inl e, w1)
           | Some (Inr m, gifIterator', w1) \<Rightarrow>
               (case rewriteRecord env opts i oldestEvent m of
                  Inl e \<Rightarrow> Some (Inl e, w1)
                | Inr m' \<Rightarrow>
                    prepareLoop env opts (i + 1) gifIterator' rest
                      (w1\<lparr>files := (files w1)(outDir opts @ ''/metadata/'' @ decimal (i + 1) @ ''.json''
                                               \<mapsto> JsonFile m')\<rparr>))))"

text \<open>
  The comparator of part_002 lines 74-78, and the reading of the files in the sorted
  order. The input directory is given by its entries in the order the directory iterator
  returns them; all of them are regular files. A \<open>.json\<close> file that holds no JSON record
  makes \<open>JSON.parse\<close> throw.
\<close>

definition compareFileNames :: "string \<Rightarrow> string \<Rightarrow> error + int" where
  "compareFileNames a b =
     (case BigNumber_from (basename a ''.json'') of
        Inl e \<Rightarrow> Inl e
      | Inr x \<Rightarrow>
          (case BigNumber_from (basename b ''.json'') of
             Inl e \<Rightarrow> Inl e
           | Inr y \<Rightarrow> toNumber (x - y)))"

fun readAll :: "options \<Rightarrow> string list \<Rightarrow> world \<Rightarrow> error + IOpenSeaMetadata list" where
  "readAll opts [] w = Inr []"
| "readAll opts (file # rest) w =
     (case files w (inDir opts @ ''/'' @ file) of
        None \<Rightarrow> Inl ENOENT
      | Some (ImageFile _) \<Rightarrow> Inl SyntaxError
      | Some (JsonFile metadata) \<Rightarrow>
          (case readAll opts rest w of
             Inl e \<Rightarrow> Inl e
           | Inr metadataJson \<Rightarrow> Inr (metadata # metadataJson)))"

definition prepareMetadata :: "normEnv \<Rightarrow> options \<Rightarrow> string list \<Rightarrow> world \<Rightarrow>
    ((error + unit) \<times> world) option" where
  "prepareMetadata env opts dirEntries w =
     (let filesToParse = filter (\<lambda>name. endsWith name ''.json'') dirEntries
      in case sortBy compareFileNames filesToParse of
           Inl e \<Rightarrow> Some (Inl e, w)
         | Inr sortedFiles \<Rightarrow>
             (case readAll opts sortedFiles w of
                Inl e \<Rightarrow> Some (Inl e, w)
              | Inr metadataJson \<Rightarrow>
                  prepareLoop env opts 0
                    (if testImages opts \<and> truthy (giphyApiKey opts) then Some NotStarted else None)
                    metadataJson w))"

subsection \<open>The flat variant\<close>

text \<open>
  \<open>prepareMetadata\<close> of \<open>metadataPrepare.ts\<close>: the records are sorted by the creation
  date of their oldest owner (lines 65-75; the comparator returns \<open>-1\<close> or \<open>1\<close>, never
  \<open>0\<close>, and \<open>reduce\<close> throws on a record without owners), the placeholder is looked for
  where it is written, and the image field is assigned whether or not it was downloaded.
\<close>

definition oldestOwner :: "Owner \<Rightarrow> Owner \<Rightarrow> Owner" where
  "oldestOwner prev current =
     (if str_lt (owner_created_date prev) (owner_created_date current) then prev else current)"

definition compareOwners :: "IOpenSeaMetadata \<Rightarrow> IOpenSeaMetadata \<Rightarrow> error + int" where
  "compareOwners a b =
     (case owners a of
        None \<Rightarrow> Inl TypeError
      | Some aOwners \<Rightarrow>
          (case reduce oldestOwner aOwners of
             Inl e \<Rightarrow> Inl e
           | Inr aOwner \<Rightarrow>
               (case owners b of
                  None \<Rightarrow> Inl TypeError
                | Some bOwners \<Rightarrow>
                    (case reduce oldestOwner bOwners of
                       Inl e \<Rightarrow> Inl e
                     | Inr bOwner \<Rightarrow>
                         Inr (if str_lt (owner_created_date aOwner) (owner_created_date bOwner)
                              then - 1 else 1)))))"

definition substituteMediaFlat :: "normEnv \<Rightarrow> options \<Rightarrow> string \<Rightarrow> nat \<Rightarrow> gen \<Rightarrow>
    IOpenSeaMetadata \<Rightarrow> world \<Rightarrow> ((error + IOpenSeaMetadata) \<times> gen \<times> world) option" where
  "substituteMediaFlat env opts apiKey i g metadata w =
     (let gifImageName = decimal (i + 1) @ ''.gif''
      in if \<not> exists w (outDir opts @ ''/'' @ gifImageName) then
           (case gifNext env apiKey
                   (if truthy (giphySearchTerm opts) then the (giphySearchTerm opts) else ''ape'')
                   g w of
              None \<Rightarrow> None
            | Some (Inl e, g', w1) \<Rightarrow> Some (Inl e, g', w1)
            | Some (Inr None, g', w1) \<Rightarrow> Some (Inl RanOutOfGifs, g', w1)
            | Some (Inr (Some u), g', w1) \<Rightarrow>
                (case downloadGif env u w1 of
                   (Inl e, w2) \<Rightarrow> Some (Inl e, g', w2)
                 | (Inr gifImageBuffer, w2) \<Rightarrow>
                     Some (Inr (metadata\<lparr>image := gifImageName\<rparr>), g',
                           w2\<lparr>files := (files w2)(outDir opts @ ''/'' @ gifImageName
                                                    \<mapsto> ImageFile gifImageBuffer)\<rparr>)))
         else Some (Inr (metadata\<lparr>image := gifImageName\<rparr>), g, w))"

definition copyImageFlat :: "options \<Rightarrow> nat \<Rightarrow> IOpenSeaMetadata \<Rightarrow> world \<Rightarrow>
    (error + IOpenSeaMetadata) \<times> world" where
  "copyImageFlat opts i metadata w =
     (let newImageFileName = decimal (i + 1) @ extname (image metadata)
      in case files w (resolveIn (inDir opts) (image metadata)) of
           None \<Rightarrow> (Inl ENOENT, w)
         | Some f \<Rightarrow>
             (Inr (metadata\<lparr>image := newImageFileName\<rparr>),
              w\<lparr>files := (files w)(outDir opts @ ''/'' @ newImageFileName \<mapsto> f)\<rparr>))"

definition resolveMediaFlat :: "normEnv \<Rightarrow> options \<Rightarrow> nat \<Rightarrow> gen option \<Rightarrow> IOpenSeaMetadata \<Rightarrow>
    world \<Rightarrow> ((error + IOpenSeaMetadata) \<times> gen option \<times> world) option" where
  "resolveMediaFlat env opts i gifIterator metadata w =
     (case gifIterator of
        Some g \<Rightarrow>
          (case substituteMediaFlat env opts (the (giphyApiKey opts)) i g metadata w of
             None \<Rightarrow> None
           | Some (r, g', w1) \<Rightarrow> Some (r, Some g', w1))
      | None \<Rightarrow> (case copyImageFlat opts i metadata w of (r, w1) \<Rightarrow> Some (r, None, w1)))"

fun prepareLoopFlat :: "normEnv \<Rightarrow> options \<Rightarrow> nat \<Rightarrow> gen option \<Rightarrow> IOpenSeaMetadata list \<Rightarrow>
    world \<Rightarrow> ((error + unit) \<times> world) option" where
  "prepareLoopFlat env opts i gifIterator [] w = Some (Inr (), w)"
| "prepareLoopFlat env opts i gifIterator (metadata # rest) w =
     (case resolveMediaFlat env opts i gifIterator metadata w of
        None \<Rightarrow> None
      | Some (Inl e, _, w1) \<Rightarrow> Some (Inl e, w1)
      | Some (Inr m, gifIterator', w1) \<Rightarrow>
          prepareLoopFlat env opts (i + 1) gifIterator' rest
            (w1\<lparr>files := (files w1)(outDir opts @ ''/'' @ decimal (i + 1) @ ''.json''
                                     \<mapsto> JsonFile m)\<rparr>))"

definition prepareMetadataFlat :: "normEnv \<Rightarrow> options \<Rightarrow> string list \<Rightarrow> world \<Rightarrow>
    ((error + unit) \<times> world) option" where
  "prepareMetadataFlat env opts dirEntries w =
     (let filesToParse = filter (\<lambda>name. endsWith name ''.json'') dirEntries
      in case readAll opts filesToParse w of
           Inl e \<Rightarrow> Some (Inl e, w)
         | Inr parsed \<Rightarrow>
             (case sortBy compareOwners parsed of
                Inl e \<Rightarrow> Some (Inl e, w)
              | Inr metadataJson \<Rightarrow>
                  prepareLoopFlat env opts 0
                    (if testImages opts \<and> truthy (giphyApiKey opts) then Some NotStarted else None)
                    metadataJson w))"

section \<open>Inputs and names used in the statements about the normalisation\<close>

text \<open>
  The attributes the pass derives; the number a file is named after; the output path of the
  record with identifier \<open>k + 1\<close>; the \<open>.json\<close> entries of a directory listing; and a small
  corpus with its environment: a placeholder search that returns three URLs, two of them
  GIFs, a date parser that knows two dates, two records of which the one in \<open>1.json\<close> was
  created later, a record without events, and the worlds before and after the runs.
\<close>

definition typeAttribute :: "IOpenSeaMetadata \<Rightarrow> IMetadataAttribute" where
  "typeAttribute metadata =
     \<lparr>trait_type = ''Type'',
      attr_value = (if includes_str (md_name metadata) ''Hunny #'' then ''Classic'' else ''Named'')\<rparr>"

definition mintDateAttribute :: "string \<Rightarrow> IMetadataAttribute" where
  "mintDateAttribute localeCreationDate =
     \<lparr>trait_type = ''Original Mint Date'', attr_value = localeCreationDate\<rparr>"

definition gifSearch :: "request \<Rightarrow> nat \<Rightarrow> (string list \<times> nat) option" where
  "gifSearch r n =
     (case r of
        GiphySearch _ _ offset \<Rightarrow>
          (if offset = 0 then Some ([''https://gifs.example/a.gif?cid=1'', ''https://gifs.example/b.webp'',
                                    ''https://gifs.example/c.gif''], 3)
           else Some ([], 3))
      | _ \<Rightarrow> None)"

definition gifHost :: "request \<Rightarrow> nat \<Rightarrow> string response option" where
  "gifHost r n = Some \<lparr>status = 200, retry_after = None, content_type = Some ''image/gif'',
                       body = Some ''GIF89a''\<rparr>"

definition testNormEnv :: normEnv where
  "testNormEnv =
     \<lparr>giphy_api = gifSearch, gif_host = gifHost,
      Date_parse = (\<lambda>s. if s = ''2022-01-05T10:00:00'' then Some 1641376800000
                        else if s = ''2021-03-01T09:30:00'' then Some 1614591000000
                        else None),
      toLocaleDateString = (\<lambda>t. if t = 1641376800000 then ''January 5, 2022''
                                else if t = 1614591000000 then ''March 1, 2021''
                                else ''January 1, 1970''),
      toISOString = (\<lambda>t. if t = 1641376800000 then ''2022-01-05T10:00:00.000Z''
                         else if t = 1614591000000 then ''2021-03-01T09:30:00.000Z''
                         else ''1970-01-01T00:00:00.000Z'')\<rparr>"

definition testOptions :: options where
  "testOptions = \<lparr>giphyApiKey = None, giphySearchTerm = None, inDir = ''in'', outDir = ''out'',
                   testImages = False, hunnys = True, mintAttribute = True\<rparr>"

definition testRecord :: "string \<Rightarrow> string \<Rightarrow> AssetEvent list option \<Rightarrow> IOpenSeaMetadata" where
  "testRecord nm img evs =
     \<lparr>md_name = nm, md_description = ''A bunny'', image = img, attributes = Some [],
      owners = Some [], events = evs, md_id = None, original_creation_date = None\<rparr>"

definition mintEvent :: "string \<Rightarrow> AssetEvent" where
  "mintEvent d = \<lparr>event_asset = None, event_type = ''created'', created_date = d\<rparr>"

definition classicRecord :: IOpenSeaMetadata where
  "classicRecord = testRecord ''Hunny #12'' ''./12.png'' None"

definition bareRecord :: IOpenSeaMetadata where
  "bareRecord = classicRecord\<lparr>attributes := None\<rparr>"

definition fileNumber :: "string \<Rightarrow> int" where
  "fileNumber name = (case BigNumber_from (basename name ''.json'') of Inl _ \<Rightarrow> 0 | Inr x \<Rightarrow> x)"

definition numbered :: "string list \<Rightarrow> bool" where
  "numbered names \<longleftrightarrow>
     (\<forall>a\<in>set names. \<exists>x. BigNumber_from (basename a ''.json'') = Inr x)
     \<and> (\<forall>a\<in>set names. \<forall>b\<in>set names. \<bar>fileNumber a - fileNumber b\<bar> < 2 ^ 53)"

definition jsonOut :: "options \<Rightarrow> nat \<Rightarrow> string" where
  "jsonOut opts k = outDir opts @ ''/metadata/'' @ decimal (k + 1) @ ''.json''"

definition jsonEntries :: "string list \<Rightarrow> string list" where
  "jsonEntries dirEntries = filter (\<lambda>name. endsWith name ''.json'') dirEntries"

definition laterRecord :: IOpenSeaMetadata where
  "laterRecord = testRecord ''Hunny #12'' ''./1.png'' (Some [mintEvent ''2022-01-05T10:00:00''])"

definition earlierRecord :: IOpenSeaMetadata where
  "earlierRecord = testRecord ''Honey Pot'' ''./2.png'' (Some [mintEvent ''2021-03-01T09:30:00''])"

definition corpusEntries :: "string list" where
  "corpusEntries = [''2.json'', ''1.json'', ''1.png'', ''2.png'']"

definition corpusWorld :: world where
  "corpusWorld = \<lparr>trace = [],
                   files = [''in/1.json'' \<mapsto> JsonFile laterRecord, ''in/1.png'' \<mapsto> ImageFile ''PNG1'',
                            ''in/2.json'' \<mapsto> JsonFile earlierRecord, ''in/2.png'' \<mapsto> ImageFile ''PNG2'']\<rparr>"

definition laterOut :: IOpenSeaMetadata where
  "laterOut = laterRecord
     \<lparr>image := ''1.png'',
      attributes := Some [\<lparr>trait_type = ''Type'', attr_value = ''Classic''\<rparr>,
                          \<lparr>trait_type = ''Original Mint Date'', attr_value = ''January 5, 2022''\<rparr>],
      md_id := Some ''1'',
      original_creation_date := Some ''2022-01-05T10:00:00.000Z'',
      md_description := ''A bunny'' @ provenanceSentence ''January 5, 2022''\<rparr>"

definition earlierOut :: IOpenSeaMetadata where
  "earlierOut = earlierRecord
     \<lparr>image := ''2.png'',
      attributes := Some [\<lparr>trait_type = ''Type'', attr_value = ''Named''\<rparr>,
                          \<lparr>trait_type = ''Original Mint Date'', attr_value = ''March 1, 2021''\<rparr>],
      md_id := Some ''2'',
      original_creation_date := Some ''2021-03-01T09:30:00.000Z'',
      md_description := ''A bunny'' @ provenanceSentence ''March 1, 2021''\<rparr>"

definition normalizedWorld :: world where
  "normalizedWorld = corpusWorld
     \<lparr>files := (files corpusWorld)
         (''out/assets/1.png'' \<mapsto> ImageFile ''PNG1'', ''out/metadata/1.json'' \<mapsto> JsonFile laterOut,
          ''out/assets/2.png'' \<mapsto> ImageFile ''PNG2'', ''out/metadata/2.json'' \<mapsto> JsonFile earlierOut)\<rparr>"

definition eventlessRecord :: IOpenSeaMetadata where
  "eventlessRecord = testRecord ''Hunny #1'' ''./1.png'' (Some [])"

definition eventlessWorld :: world where
  "eventlessWorld = \<lparr>trace = [],
                      files = [''in/1.json'' \<mapsto> JsonFile eventlessRecord,
                               ''in/1.png'' \<mapsto> ImageFile ''PNG1'']\<rparr>"

definition gifOptions :: options where
  "gifOptions = testOptions\<lparr>giphyApiKey := Some ''gk'', testImages := True\<rparr>"

definition firstGif :: string where
  "firstGif = ''https://gifs.example/a.gif?cid=1''"

definition gifTrace :: "event list" where
  "gifTrace = [Fetch (GiphySearch ''gk'' ''ape'' 0), Fetch (GetGif firstGif)]"

definition gifWorld0 :: world where
  "gifWorld0 = \<lparr>trace = [], files = [''in/1.json'' \<mapsto> JsonFile laterRecord,
                                       ''in/1.png'' \<mapsto> ImageFile ''PNG1'']\<rparr>"

definition gifOut :: IOpenSeaMetadata where
  "gifOut = laterOut\<lparr>image := ''1.gif''\<rparr>"

definition gifWorld1 :: world where
  "gifWorld1 = \<lparr>trace = gifTrace,
                 files = (files gifWorld0)(''out/assets/1.gif'' \<mapsto> ImageFile ''GIF89a'',
                                           ''out/metadata/1.json'' \<mapsto> JsonFile gifOut)\<rparr>"

definition gifWorld2 :: world where
  "gifWorld2 = \<lparr>trace = gifTrace @ gifTrace,
                 files = (files gifWorld1)(''out/assets/1.gif'' \<mapsto> ImageFile ''GIF89a'',
                                           ''out/metadata/1.json'' \<mapsto> JsonFile gifOut)\<rparr>"

section \<open>Properties of the paginated fetch\<close>

lemma retry_first_ok:
  "operation w = (Inr v, w') \<Longrightarrow> 0 < n \<Longrightarrow> retryWithBackoff operation n d w = (Inr v, w')"
  by (cases n) simp_all

lemma ceil_step:
  fixes P :: nat
  assumes "0 < P" "0 < m"
  shows "(m + P - 1) div P = Suc ((m - 1) div P)"
proof -
  have e: "m + P - 1 = (m - 1) + P" using assms by simp
  have "(m - 1 + P) div P = (m - 1) div P + 1"
    using assms(1) by (metis div_add_self2 less_numeral_extra(3))
  then show ?thesis unfolding e by simp
qed

lemma ceil_last:
  fixes P :: nat
  assumes "0 < P" "m \<le> P" "0 < m"
  shows "(m + P - 1) div P = 1"
  using ceil_step[OF assms(1) assms(3)] assms by simp

lemma pages_from:
  fixes fetcher :: "string option \<Rightarrow> ('z, 't page) io"
  assumes P: "0 < P"
    and enc: "\<And>n. 0 < n \<Longrightarrow> enc n \<noteq> [] \<and> dec (enc n) = n"
    and srv: "servesPages fetcher mk itemsOf enc dec items P"
  shows "offsetOf dec c = off \<Longrightarrow> length items - off = m \<Longrightarrow>
     \<exists>pages w'. fetchWithPagination fetcher c yielded w = Some ((yielded @ pages, None), w')
       \<and> length pages = max 1 ((m + P - 1) div P)
       \<and> concat (map itemsOf pages) = drop off items
       \<and> trace w' = trace w @ map (\<lambda>c. Fetch (mk c)) (c # map page_next (butlast pages))
       \<and> pages \<noteq> [] \<and> page_next (last pages) = None"
proof (induction m arbitrary: c off yielded w rule: less_induct)
  case (less m)
  obtain pg where pg: "fetcher c w = (Inr pg, w\<lparr>trace := trace w @ [Fetch (mk c)]\<rparr>)"
    and it: "itemsOf pg = take P (drop off items)"
    and nx: "page_next pg = (if off + P < length items then Some (enc (off + P)) else None)"
    using srv[unfolded servesPages_def, rule_format, of c w] less.prems(1) by auto
  let ?w1 = "w\<lparr>trace := trace w @ [Fetch (mk c)]\<rparr>"
  have r: "retryWithBackoff (fetcher c) 5 250 w = (Inr pg, ?w1)"
    using retry_first_ok[of "fetcher c" w, OF pg] by simp
  show ?case
  proof (cases "off + P < length items")
    case False
    then have nn: "page_next pg = None" using nx by simp
    have f: "fetchWithPagination fetcher c yielded w = Some ((yielded @ [pg], None), ?w1)"
      by (subst fetchWithPagination.simps) (simp add: r nn truthy_def)
    have d: "drop off items = take P (drop off items)" using False by simp
    have len: "max 1 ((m + P - 1) div P) = 1"
    proof (cases "m = 0")
      case True then show ?thesis using P by simp
    next
      case False
      then show ?thesis
        using ceil_last[of P m] P \<open>\<not> off + P < length items\<close> less.prems(2) by simp
    qed
    show ?thesis
      apply (rule exI[of _ "[pg]"], rule exI[of _ ?w1])
      using f it d nn len by simp
  next
    case True
    let ?c' = "Some (enc (off + P))"
    have nx': "page_next pg = ?c'" using nx True by simp
    have tr: "truthy ?c'" using enc[of "off + P"] P by (simp add: truthy_def)
    have o': "offsetOf dec ?c' = off + P" using enc[of "off + P"] P by (simp add: offsetOf_def)
    have m': "length items - (off + P) < m" using True less.prems(2) P by simp
    obtain pages w' where
      ih: "fetchWithPagination fetcher ?c' (yielded @ [pg]) ?w1 =
             Some (((yielded @ [pg]) @ pages, None), w')"
        "length pages = max 1 ((length items - (off + P) + P - 1) div P)"
        "concat (map itemsOf pages) = drop (off + P) items"
        "trace w' = trace ?w1 @ map (\<lambda>c. Fetch (mk c)) (?c' # map page_next (butlast pages))"
        "pages \<noteq> []" "page_next (last pages) = None"
      using less.IH[OF m' o' refl, of "yielded @ [pg]" ?w1] by blast
    have f: "fetchWithPagination fetcher c yielded w = Some ((yielded @ pg # pages, None), w')"
      by (subst fetchWithPagination.simps) (simp add: r tr nx' ih(1))
    have Pm: "P < m" using True less.prems(2) by simp
    then have m0: "0 < m" by simp
    have e: "length items - (off + P) + P - 1 = m - 1" using True less.prems(2) by simp
    have "0 < (m - 1) div P" using Pm P by (simp add: div_greater_zero_iff)
    then have len: "length (pg # pages) = max 1 ((m + P - 1) div P)"
      using ih(2) ceil_step[OF P m0] e by simp
    have cc: "concat (map itemsOf (pg # pages)) = drop off items"
      using it ih(3) by (simp add: add.commute[of off P] flip: drop_drop)
    have tt: "trace w' = trace w @ map (\<lambda>c. Fetch (mk c)) (c # map page_next (butlast (pg # pages)))"
      using ih(4) ih(5) nx' by simp
    show ?thesis
      apply (rule exI[of _ "pg # pages"], rule exI[of _ w'])
      using f len cc tt ih(5) ih(6) by simp
  qed
qed

text \<open>
  C7, as the code has it. Against a fetcher that serves \<open>L\<close> items in pages of
  \<open>P \<ge> 1\<close>, the traversal ends, yields \<open>max 1 \<lceil>L / P\<rceil>\<close> pages (one empty page when
  there is no item), the items of the pages in order are the items served, the last page has
  no next cursor, and the requests sent are, in order, the one without cursor and then one
  for the next cursor of each page but the last: page \<open>N + 1\<close> is requested with the
  cursor that page \<open>N\<close> returned.
\<close>

theorem fetchWithPagination_yields_all_pages:
  fixes fetcher :: "string option \<Rightarrow> ('z, 't page) io"
  assumes "0 < P"
    and "\<And>n. 0 < n \<Longrightarrow> enc n \<noteq> [] \<and> dec (enc n) = n"
    and "servesPages fetcher mk itemsOf enc dec items P"
  shows "\<exists>pages w'. fetchWithPagination fetcher None [] w = Some ((pages, None), w')
       \<and> length pages = max 1 ((length items + P - 1) div P)
       \<and> concat (map itemsOf pages) = items
       \<and> page_next (last pages) = None
       \<and> trace w' = trace w @ map (\<lambda>c. Fetch (mk c)) (None # map page_next (butlast pages))"
proof -
  have o: "offsetOf dec None = 0" by (simp add: offsetOf_def)
  from pages_from[OF assms o, of "length items" "[]" w]
  show ?thesis by auto
qed

lemma listing_serves:
  "servesPages (assetsFetcher (listingEnv items P) slug key) (assetsRequest key slug)
      pageItems unaryCursor length items P"
  unfolding servesPages_def
  by (auto simp: assetsFetcher_def apiCall_def fetch_def rateLimit_def json_def listingEnv_def
      pagedApi_def cursorOf_def offsetOf_def truthy_def assetsRequest_def pageItems_def
      orEmpty_def Let_def split: option.splits)

theorem fetchWithPagination_yields_all_pages_witness:
  "0 < (2::nat)
   \<and> servesPages (assetsFetcher (listingEnv threeAssets 2) ''slug'' ''key'')
        (assetsRequest ''key'' ''slug'') pageItems unaryCursor length threeAssets 2
   \<and> (\<exists>pages w'. fetchWithPagination (assetsFetcher (listingEnv threeAssets 2) ''slug'' ''key'')
          None [] world0 = Some ((pages, None), w')
       \<and> length pages = 2
       \<and> concat (map pageItems pages) = threeAssets
       \<and> page_next (last pages) = None
       \<and> trace w' = map (\<lambda>c. Fetch (assetsRequest ''key'' ''slug'' c))
                        (None # map page_next (butlast pages)))"
proof -
  have e: "\<And>n. 0 < n \<Longrightarrow> unaryCursor n \<noteq> [] \<and> length (unaryCursor n) = n"
    by (simp add: unaryCursor_def)
  have s: "servesPages (assetsFetcher (listingEnv threeAssets 2) ''slug'' ''key'')
        (assetsRequest ''key'' ''slug'') pageItems unaryCursor length threeAssets 2"
    by (rule listing_serves)
  have l: "max (Suc 0) (Suc (length threeAssets) div 2) = 2" by (simp add: threeAssets_def)
  have p: "0 < (2::nat)" by simp
  from fetchWithPagination_yields_all_pages[OF p e s, of world0]
  show ?thesis using s by (simp add: l world0_def)
qed

text \<open>
  C7 as stated fails on an empty listing: \<open>\<lceil>0 / 1\<rceil> = 0\<close>, but the loop fetches and yields
  before it looks at the cursor, so one (empty) page is yielded.
\<close>

theorem fetchWithPagination_empty_listing_counterexample:
  "fetchWithPagination (assetsFetcher (listingEnv [] 1) ''slug'' ''key'') None [] world0
     = Some (([emptyPage], None),
             \<lparr>trace = [Fetch (GetAssets ''key'' ''slug'' None)], files = Map.empty\<rparr>)
   \<and> length [emptyPage] \<noteq> (length ([] :: CollectionAsset list) + 1 - 1) div 1"
  apply (subst fetchWithPagination.simps)
  apply (simp add: assetsFetcher_def apiCall_def fetch_def rateLimit_def json_def listingEnv_def
      pagedApi_def cursorOf_def offsetOf_def truthy_def world0_def emptyPage_def testEnv_def Let_def
      eval_nat_numeral)
  done

section \<open>Properties of the rate-limit handling\<close>

lemma rateLimit_hint:
  assumes "status resp = 429" "0 < h"
    "parseInt (case retry_after resp of None \<Rightarrow> ''0'' | Some s \<Rightarrow> s) = Some (int h)"
  shows "rateLimit resp w = (Inl RateLimited, sleep (h * 1000) w)"
  using assms by (simp add: rateLimit_def)

lemma rateLimit_pass: "status resp \<noteq> 429 \<Longrightarrow> rateLimit resp w = (Inr (), w)"
  by (simp add: rateLimit_def)

lemma rateLimitedWith_Cons:
  assumes a: "rateLimitedWith api r n0 (h # hs)"
  shows "(\<exists>resp. api r n0 = Some resp \<and> status resp = 429 \<and> 0 < h \<and>
        parseInt (case retry_after resp of None \<Rightarrow> ''0'' | Some s \<Rightarrow> s) = Some (int h))
     \<and> rateLimitedWith api r (Suc n0) hs"
proof
  show "\<exists>resp. api r n0 = Some resp \<and> status resp = 429 \<and> 0 < h \<and>
        parseInt (case retry_after resp of None \<Rightarrow> ''0'' | Some s \<Rightarrow> s) = Some (int h)"
    using a[unfolded rateLimitedWith_def, rule_format, of 0] by simp
  show "rateLimitedWith api r (Suc n0) hs"
    unfolding rateLimitedWith_def
  proof (intro allI impI)
    fix i assume "i < length hs"
    then have "Suc i < length (h # hs)" by simp
    from a[unfolded rateLimitedWith_def, rule_format, OF this]
    show "\<exists>resp. api r (Suc n0 + i) = Some resp \<and> status resp = 429 \<and> 0 < hs ! i \<and>
           parseInt (case retry_after resp of None \<Rightarrow> ''0'' | Some s \<Rightarrow> s) = Some (int (hs ! i))"
      by simp
  qed
qed

lemma retry_success_after_limits:
  fixes w :: "'z world_scheme" and operation :: "('z, 'a) io"
  assumes lim: "\<And>(w::'z world_scheme) resp h. api r (count_list (trace w) (Fetch r)) = Some resp \<Longrightarrow>
             status resp = 429 \<Longrightarrow> 0 < h \<Longrightarrow>
             parseInt (case retry_after resp of None \<Rightarrow> ''0'' | Some s \<Rightarrow> s) = Some (int h) \<Longrightarrow>
             operation w = (Inl RateLimited, w\<lparr>trace := trace w @ [Fetch r, Sleep (h * 1000)]\<rparr>)"
    and good: "\<And>(w::'z world_scheme). api r (count_list (trace w) (Fetch r)) = Some resp \<Longrightarrow>
             operation w = (Inr pg, w\<lparr>trace := trace w @ [Fetch r]\<rparr>)"
  shows "rateLimitedWith api r (count_list (trace w) (Fetch r)) hs \<Longrightarrow>
     api r (count_list (trace w) (Fetch r) + length hs) = Some resp \<Longrightarrow>
     length hs < maxAttempts \<Longrightarrow>
     retryWithBackoff operation maxAttempts d w =
           (Inr pg, w\<lparr>trace := trace w @ backoffTrace r d hs @ [Fetch r]\<rparr>)"
proof (induction hs arbitrary: w d maxAttempts)
  case Nil
  obtain m where m: "maxAttempts = Suc m" using Nil.prems(3) by (cases maxAttempts) auto
  have "operation w = (Inr pg, w\<lparr>trace := trace w @ [Fetch r]\<rparr>)"
    using good[of w] Nil.prems(2) by simp
  then show ?case by (simp add: m)
next
  case (Cons h hs)
  obtain m where m: "maxAttempts = Suc m" "length hs < m" "m \<noteq> 0"
    using Cons.prems(3) by (cases maxAttempts) auto
  from rateLimitedWith_Cons[OF Cons.prems(1)]
  obtain resp0 where r0: "api r (count_list (trace w) (Fetch r)) = Some resp0"
      "status resp0 = 429" "0 < h"
      "parseInt (case retry_after resp0 of None \<Rightarrow> ''0'' | Some s \<Rightarrow> s) = Some (int h)"
    and rest: "rateLimitedWith api r (Suc (count_list (trace w) (Fetch r))) hs"
    by blast
  let ?w1 = "w\<lparr>trace := trace w @ [Fetch r, Sleep (h * 1000)]\<rparr>"
  have a: "operation w = (Inl RateLimited, ?w1)"
    using lim[OF r0] .
  let ?w2 = "sleep d ?w1"
  have cnt: "count_list (trace ?w2) (Fetch r) = Suc (count_list (trace w) (Fetch r))"
    by (simp add: sleep_def)
  have ih: "retryWithBackoff operation m (d * backoffFactor) ?w2 =
           (Inr pg, ?w2\<lparr>trace := trace ?w2 @ backoffTrace r (d * backoffFactor) hs @ [Fetch r]\<rparr>)"
  proof (rule Cons.IH)
    show "rateLimitedWith api r (count_list (trace ?w2) (Fetch r)) hs"
      using rest by (simp only: cnt)
    show "api r (count_list (trace ?w2) (Fetch r) + length hs) = Some resp"
      using Cons.prems(2) by (simp only: cnt) simp
    show "length hs < m" by (rule m(2))
  qed
  show ?case
    using a ih m by (simp add: sleep_def)
qed

lemma retry_exhausted_by_limits:
  fixes w :: "'z world_scheme" and operation :: "('z, 'a) io"
  assumes lim: "\<And>(w::'z world_scheme) resp h. api r (count_list (trace w) (Fetch r)) = Some resp \<Longrightarrow>
             status resp = 429 \<Longrightarrow> 0 < h \<Longrightarrow>
             parseInt (case retry_after resp of None \<Rightarrow> ''0'' | Some s \<Rightarrow> s) = Some (int h) \<Longrightarrow>
             operation w = (Inl RateLimited, w\<lparr>trace := trace w @ [Fetch r, Sleep (h * 1000)]\<rparr>)"
  shows "rateLimitedWith api r (count_list (trace w) (Fetch r)) hs \<Longrightarrow>
     length hs = maxAttempts \<Longrightarrow> 0 < maxAttempts \<Longrightarrow>
     retryWithBackoff operation maxAttempts d w =
           (Inl RetryExhausted, w\<lparr>trace := trace w @ butlast (backoffTrace r d hs)\<rparr>)"
proof (induction hs arbitrary: w d maxAttempts)
  case Nil
  then show ?case by simp
next
  case (Cons h hs)
  obtain m where m: "maxAttempts = Suc m" "length hs = m"
    using Cons.prems(2) by (cases maxAttempts) auto
  from rateLimitedWith_Cons[OF Cons.prems(1)]
  obtain resp0 where r0: "api r (count_list (trace w) (Fetch r)) = Some resp0"
      "status resp0 = 429" "0 < h"
      "parseInt (case retry_after resp0 of None \<Rightarrow> ''0'' | Some s \<Rightarrow> s) = Some (int h)"
    and rest: "rateLimitedWith api r (Suc (count_list (trace w) (Fetch r))) hs"
    by blast
  let ?w1 = "w\<lparr>trace := trace w @ [Fetch r, Sleep (h * 1000)]\<rparr>"
  have a: "operation w = (Inl RateLimited, ?w1)"
    using lim[OF r0] .
  show ?case
  proof (cases "m = 0")
    case True
    then have "hs = []" using m by simp
    then show ?thesis using a m True by simp
  next
    case False
    let ?w2 = "sleep d ?w1"
    have cnt: "count_list (trace ?w2) (Fetch r) = Suc (count_list (trace w) (Fetch r))"
      by (simp add: sleep_def)
    have ih: "retryWithBackoff operation m (d * backoffFactor) ?w2 =
           (Inl RetryExhausted, ?w2\<lparr>trace := trace ?w2 @ butlast (backoffTrace r (d * backoffFactor) hs)\<rparr>)"
    proof (rule Cons.IH)
      show "rateLimitedWith api r (count_list (trace ?w2) (Fetch r)) hs"
        using rest by (simp only: cnt)
      show "length hs = m" by (rule m(2))
      show "0 < m" using False by simp
    qed
    have ne: "backoffTrace r (d * backoffFactor) hs \<noteq> []"
      using False m(2) by (cases hs) auto
    show ?thesis
      using a ih m False ne by (simp add: sleep_def butlast_append)
  qed
qed


lemma apiCall_limited:
  assumes "api r (count_list (trace w) (Fetch r)) = Some resp"
    "status resp = 429" "0 < h"
    "parseInt (case retry_after resp of None \<Rightarrow> ''0'' | Some s \<Rightarrow> s) = Some (int h)"
  shows "apiCall api r w = (Inl RateLimited, w\<lparr>trace := trace w @ [Fetch r, Sleep (h * 1000)]\<rparr>)"
  unfolding apiCall_def
  using assms(1) by (simp add: fetch_def sleep_def rateLimit_hint[OF assms(2,3,4)])

lemma apiCall_ok:
  assumes "api r (count_list (trace w) (Fetch r)) = Some resp"
    "status resp \<noteq> 429" "body resp = Some pg"
  shows "apiCall api r w = (Inr pg, w\<lparr>trace := trace w @ [Fetch r]\<rparr>)"
  unfolding apiCall_def
  using assms(1,3) by (simp add: fetch_def json_def rateLimit_pass[OF assms(2)])

text \<open>
  C3. Let the next \<open>length hs\<close> answers to the request be rate limited (status 429)
  with the positive retry-after hints \<open>hs\<close>. Each such attempt is the request, then the
  server-directed wait of \<open>1000 * h\<close> ms, and only then the error that the retry policy
  sees and answers with its own backoff delay. The waits cost no attempt: with fewer than
  \<open>maxAttempts\<close> rate-limited answers before a good one, the good answer is returned after
  \<open>length hs + 1\<close> requests; with \<open>maxAttempts\<close> of them the policy gives up after
  exactly \<open>maxAttempts\<close> requests.
\<close>

theorem rate_limit_wait_consumes_no_attempt:
  fixes w :: "'z world_scheme"
  assumes "rateLimitedWith api r (count_list (trace w) (Fetch r)) hs"
  shows "(length hs < maxAttempts \<longrightarrow>
            api r (count_list (trace w) (Fetch r) + length hs) = Some resp \<longrightarrow>
            status resp \<noteq> 429 \<longrightarrow> body resp = Some pg \<longrightarrow>
            retryWithBackoff (apiCall api r) maxAttempts d w =
              (Inr pg, w\<lparr>trace := trace w @ backoffTrace r d hs @ [Fetch r]\<rparr>))
       \<and> (length hs = maxAttempts \<longrightarrow> 0 < maxAttempts \<longrightarrow>
            retryWithBackoff (apiCall api r) maxAttempts d w =
              (Inl RetryExhausted, w\<lparr>trace := trace w @ butlast (backoffTrace r d hs)\<rparr>))"
proof (intro conjI impI)
  assume a: "length hs < maxAttempts"
    "api r (count_list (trace w) (Fetch r) + length hs) = Some resp"
    "status resp \<noteq> 429" "body resp = Some pg"
  show "retryWithBackoff (apiCall api r) maxAttempts d w =
              (Inr pg, w\<lparr>trace := trace w @ backoffTrace r d hs @ [Fetch r]\<rparr>)"
  proof (rule retry_success_after_limits[where api = api and resp = resp, OF _ _ assms a(2) a(1)])
    fix w :: "'z world_scheme" and resp0 h
    assume "api r (count_list (trace w) (Fetch r)) = Some resp0" "status resp0 = 429" "0 < h"
      "parseInt (case retry_after resp0 of None \<Rightarrow> ''0'' | Some s \<Rightarrow> s) = Some (int h)"
    then show "apiCall api r w = (Inl RateLimited, w\<lparr>trace := trace w @ [Fetch r, Sleep (h * 1000)]\<rparr>)"
      by (rule apiCall_limited)
  next
    fix w :: "'z world_scheme"
    assume "api r (count_list (trace w) (Fetch r)) = Some resp"
    then show "apiCall api r w = (Inr pg, w\<lparr>trace := trace w @ [Fetch r]\<rparr>)"
      using a(3,4) by (rule apiCall_ok)
  qed
next
  assume a: "length hs = maxAttempts" "0 < maxAttempts"
  show "retryWithBackoff (apiCall api r) maxAttempts d w =
              (Inl RetryExhausted, w\<lparr>trace := trace w @ butlast (backoffTrace r d hs)\<rparr>)"
  proof (rule retry_exhausted_by_limits[where api = api, OF _ assms a])
    fix w :: "'z world_scheme" and resp0 h
    assume "api r (count_list (trace w) (Fetch r)) = Some resp0" "status resp0 = 429" "0 < h"
      "parseInt (case retry_after resp0 of None \<Rightarrow> ''0'' | Some s \<Rightarrow> s) = Some (int h)"
    then show "apiCall api r w = (Inl RateLimited, w\<lparr>trace := trace w @ [Fetch r, Sleep (h * 1000)]\<rparr>)"
      by (rule apiCall_limited)
  qed
qed

lemma parseInt_2: "parseInt ''2'' = Some 2"
  by code_simp

lemma limited_twice:
  "rateLimitedWith (limitedApi 2 ''2'' b) r 0 [2, 2]"
  by (simp add: rateLimitedWith_def limitedApi_def parseInt_2 less_Suc_eq nth_Cons' eval_nat_numeral)

theorem rate_limit_wait_consumes_no_attempt_witness:
  "retryWithBackoff (apiCall (limitedApi 2 ''2'' emptyPage) (GetAssets ''key'' ''slug'' None)) 5 250 world0
     = (Inr emptyPage,
        \<lparr>trace = [Fetch (GetAssets ''key'' ''slug'' None), Sleep 2000, Sleep 250,
                  Fetch (GetAssets ''key'' ''slug'' None), Sleep 2000, Sleep 500,
                  Fetch (GetAssets ''key'' ''slug'' None)], files = Map.empty\<rparr>)
   \<and> retryWithBackoff (apiCall (limitedApi 2 ''2'' emptyPage) (GetAssets ''key'' ''slug'' None)) 2 250 world0
     = (Inl RetryExhausted,
        \<lparr>trace = [Fetch (GetAssets ''key'' ''slug'' None), Sleep 2000, Sleep 250,
                  Fetch (GetAssets ''key'' ''slug'' None), Sleep 2000], files = Map.empty\<rparr>)"
proof -
  have l: "rateLimitedWith (limitedApi 2 ''2'' emptyPage) (GetAssets ''key'' ''slug'' None)
             (count_list (trace world0) (Fetch (GetAssets ''key'' ''slug'' None))) [2, 2]"
    using limited_twice by (simp add: world0_def)
  have g: "limitedApi 2 ''2'' emptyPage (GetAssets ''key'' ''slug'' None)
             (count_list (trace world0) (Fetch (GetAssets ''key'' ''slug'' None)) + length [2::nat, 2])
           = Some \<lparr>status = 200, retry_after = None, content_type = None, body = Some emptyPage\<rparr>"
    by (simp add: limitedApi_def world0_def)
  from rate_limit_wait_consumes_no_attempt[OF l, of 5
      "\<lparr>status = 200, retry_after = None, content_type = None, body = Some emptyPage\<rparr>" emptyPage 250]
  have 1: "retryWithBackoff (apiCall (limitedApi 2 ''2'' emptyPage) (GetAssets ''key'' ''slug'' None)) 5 250 world0
     = (Inr emptyPage, world0\<lparr>trace := trace world0 @ backoffTrace (GetAssets ''key'' ''slug'' None) 250 [2, 2]
           @ [Fetch (GetAssets ''key'' ''slug'' None)]\<rparr>)"
    using g by simp
  from rate_limit_wait_consumes_no_attempt[OF l, of 2 _ _ 250]
  have 2: "retryWithBackoff (apiCall (limitedApi 2 ''2'' emptyPage) (GetAssets ''key'' ''slug'' None)) 2 250 world0
     = (Inl RetryExhausted, world0\<lparr>trace := trace world0 @ butlast (backoffTrace (GetAssets ''key'' ''slug'' None) 250 [2, 2])\<rparr>)"
    by simp
  show ?thesis
    unfolding 1 2 by (simp add: world0_def backoffFactor_def)
qed

section \<open>Properties of the image resolution\<close>

lemma fetched_append [simp]: "fetched (a @ b) = fetched a @ fetched b"
  by (simp add: fetched_def)

lemma fetched_simps [simp]: "fetched [] = []" "fetched (Fetch r # t) = r # fetched t"
  "fetched (Sleep n # t) = fetched t" "fetched (ConsoleError e # t) = fetched t"
  by (simp_all add: fetched_def)

lemma stripTrailingSpaces_idem: "stripTrailingSpaces (stripTrailingSpaces p) = stripTrailingSpaces p"
proof -
  have "dropWhile (\<lambda>c. c = CHR '' '') (dropWhile (\<lambda>c. c = CHR '' '') (rev p))
      = dropWhile (\<lambda>c. c = CHR '' '') (rev p)"
    by (rule dropWhile_idem)
  then show ?thesis by (simp add: stripTrailingSpaces_def)
qed

lemma set_search_empty_opaque: "opaque (set_search_empty env u) = opaque u"
  by (simp add: set_search_empty_def Let_def)

lemma set_search_empty_idem: "set_search_empty env (set_search_empty env u) = set_search_empty env u"
  by (simp add: set_search_empty_def Let_def stripTrailingSpaces_idem)

lemma rewrite_opaque: "opaque u \<Longrightarrow> rewriteImageUrl env u = set_search_empty env u"
  by (simp add: rewriteImageUrl_def set_hostname_def set_pathname_def set_search_empty_opaque Let_def)

lemma rewrite_opaque_iter:
  "opaque u \<Longrightarrow> 0 < k \<Longrightarrow> (rewriteImageUrl env ^^ k) u = set_search_empty env u"
proof (induction k)
  case 0 then show ?case by simp
next
  case (Suc k)
  show ?case
  proof (cases "k = 0")
    case True then show ?thesis using Suc.prems by (simp add: rewrite_opaque)
  next
    case False
    then have "(rewriteImageUrl env ^^ k) u = set_search_empty env u" using Suc by simp
    then show ?thesis using Suc.prems(1)
      by (simp add: rewrite_opaque set_search_empty_opaque set_search_empty_idem)
  qed
qed

lemma rewrite_hierarchical:
  "\<not> opaque u \<Longrightarrow> rewriteImageUrl env u =
     u\<lparr>search := [], hostname := Some ''lh3.googleusercontent.com'',
       pathname := stripGae (pathname u) @ ''=d''\<rparr>"
  by (cases "replaceFirst ''/gae/'' ''/'' (pathname u)")
     (simp_all add: rewriteImageUrl_def set_search_empty_def set_hostname_def set_pathname_def
       stripGae_def rooted_def)

lemma rewrite_fields:
  "\<not> opaque u \<Longrightarrow> 0 < k \<Longrightarrow>
     protocol ((rewriteImageUrl env ^^ k) u) = protocol u \<and> port ((rewriteImageUrl env ^^ k) u) = port u
     \<and> url_hash ((rewriteImageUrl env ^^ k) u) = url_hash u
     \<and> url_username ((rewriteImageUrl env ^^ k) u) = url_username u
     \<and> url_password ((rewriteImageUrl env ^^ k) u) = url_password u
     \<and> hostname ((rewriteImageUrl env ^^ k) u) = Some ''lh3.googleusercontent.com''
     \<and> search ((rewriteImageUrl env ^^ k) u) = []"
proof (induction k)
  case 0 then show ?case by simp
next
  case (Suc k)
  have o: "\<not> opaque ((rewriteImageUrl env ^^ k) u)" for k
    using Suc.prems(1) by (induction k) (simp_all add: rewrite_hierarchical)
  show ?case
  proof (cases "k = 0")
    case True then show ?thesis using Suc.prems by (simp add: rewrite_hierarchical)
  next
    case False
    then show ?thesis using Suc o[of k] by (simp add: rewrite_hierarchical)
  qed
qed

lemma imageAttempt_effect:
  "imageAttempt env asset s = (r, s') \<Longrightarrow>
     imageUrl s' = rewriteImageUrl env (imageUrl s) \<and>
     trace s' = trace s @ [Fetch (GetImage (href (rewriteImageUrl env (imageUrl s))))]"
  by (auto simp: imageAttempt_def fetch_def Let_def split: option.splits if_splits)

lemma image_retry_fetches:
  "retryWithBackoff (imageAttempt env asset) n d s = (r, s') \<Longrightarrow>
     \<exists>m\<le>n. fetched (trace s') = fetched (trace s) @
        map (\<lambda>k. GetImage (href ((rewriteImageUrl env ^^ k) (imageUrl s)))) [1..<Suc m]"
proof (induction n arbitrary: s d)
  case 0
  then show ?case by auto
next
  case (Suc n)
  obtain r1 s1 where a: "imageAttempt env asset s = (r1, s1)" by (cases "imageAttempt env asset s")
  note e = imageAttempt_effect[OF a]
  show ?case
  proof (cases "(\<exists>v. r1 = Inr v) \<or> n = 0")
    case True
    then have "s' = s1" using Suc.prems a by (cases r1) (auto split: if_splits)
    then have "fetched (trace s') = fetched (trace s) @
        map (\<lambda>k. GetImage (href ((rewriteImageUrl env ^^ k) (imageUrl s)))) [1..<Suc 1]"
      using e by simp
    then show ?thesis by (intro exI[of _ 1]) simp
  next
    case False
    then obtain err where r1: "r1 = Inl err" and n: "n \<noteq> 0" by (cases r1) auto
    have rec: "retryWithBackoff (imageAttempt env asset) n (d * backoffFactor) (sleep d s1) = (r, s')"
      using Suc.prems a r1 n by simp
    from Suc.IH[OF rec] obtain m where m: "m \<le> n"
      "fetched (trace s') = fetched (trace (sleep d s1)) @
        map (\<lambda>k. GetImage (href ((rewriteImageUrl env ^^ k) (imageUrl (sleep d s1))))) [1..<Suc m]"
      by blast
    have u: "imageUrl (sleep d s1) = rewriteImageUrl env (imageUrl s)" using e by (simp add: sleep_def)
    have t: "fetched (trace (sleep d s1)) = fetched (trace s) @ [GetImage (href (rewriteImageUrl env (imageUrl s)))]"
      using e by (simp add: sleep_def)
    have sh: "map (\<lambda>k. GetImage (href ((rewriteImageUrl env ^^ k) (rewriteImageUrl env (imageUrl s))))) [1..<Suc m]
        = map (\<lambda>k. GetImage (href ((rewriteImageUrl env ^^ k) (imageUrl s)))) [2..<Suc (Suc m)]"
    proof -
      have "[2..<Suc (Suc m)] = map Suc [1..<Suc m]"
        by (metis Suc_1 map_Suc_upt)
      then show ?thesis by (simp add: funpow_swap1 comp_def)
    qed
    have "[1..<Suc (Suc m)] = 1 # [Suc 1..<Suc (Suc m)]"
      by (rule upt_conv_Cons) simp
    then have "[1..<Suc (Suc m)] = 1 # [2..<Suc (Suc m)]"
      by (simp add: numeral_2_eq_2)
    then have "fetched (trace s') = fetched (trace s) @
        map (\<lambda>k. GetImage (href ((rewriteImageUrl env ^^ k) (imageUrl s)))) [1..<Suc (Suc m)]"
      using m(2) u t sh by simp
    then show ?thesis using m(1) by (intro exI[of _ "Suc m"]) simp
  qed
qed

lemma replaceFirst_clean:
  "set b \<inter> set pat = {} \<Longrightarrow> pat \<noteq> [] \<Longrightarrow> replaceFirst pat rep b = b"
proof (induction b)
  case Nil
  then show ?case by simp
next
  case (Cons c b)
  have "\<not> prefix pat (c # b)"
  proof
    assume "prefix pat (c # b)"
    then obtain z where "c # b = pat @ z" by (auto simp: prefix_def)
    then have "hd pat = c" using Cons.prems(2) by (cases pat) auto
    then have "c \<in> set pat" using Cons.prems(2) by (cases pat) auto
    then show False using Cons.prems(1) by auto
  qed
  then show ?case using Cons by auto
qed

lemma replaceFirst_append_clean:
  assumes "set b \<inter> set pat = {}" "pat \<noteq> []"
  shows "replaceFirst pat rep (a @ b) = replaceFirst pat rep a @ b"
proof (induction a)
  case Nil
  then show ?case using assms replaceFirst_clean[OF assms] by simp
next
  case (Cons c a)
  have pe: "prefix pat ((c # a) @ b) \<longleftrightarrow> prefix pat (c # a)"
  proof
    assume "prefix pat ((c # a) @ b)"
    then have "prefix pat (c # a) \<or> (\<exists>us. pat = (c # a) @ us \<and> prefix us b)"
      by (simp only: prefix_append)
    then show "prefix pat (c # a)"
    proof
      assume "prefix pat (c # a)" then show ?thesis .
    next
      assume "\<exists>us. pat = (c # a) @ us \<and> prefix us b"
      then obtain us where us: "pat = (c # a) @ us" "prefix us b" by blast
      show ?thesis
      proof (cases us)
        case Nil
        then show ?thesis using us(1) by simp
      next
        case (Cons x xs)
        then have "x \<in> set b" using us(2) by (auto simp: prefix_def)
        moreover have "x \<in> set pat" using us(1) Cons by simp
        ultimately show ?thesis using assms(1) by auto
      qed
    qed
  next
    assume "prefix pat (c # a)" then show "prefix pat ((c # a) @ b)" by (rule prefix_prefix)
  qed
  show ?case
  proof (cases "prefix pat (c # a)")
    case True
    then have "length pat \<le> length (c # a)" by (rule prefix_length_le)
    then have dr: "drop (length pat) (c # a @ b) = drop (length pat) (c # a) @ b"
      using drop_append[of "length pat" "c # a" b] by simp
    have "replaceFirst pat rep (c # a @ b) = rep @ drop (length pat) (c # a @ b)"
      using True pe by simp
    moreover have "replaceFirst pat rep (c # a) = rep @ drop (length pat) (c # a)"
      using True by simp
    ultimately show ?thesis by (simp only: dr append_Cons append_assoc)
  next
    case False
    then show ?thesis using pe Cons.IH by simp
  qed
qed


lemma set_suffix_d: "set (concat (replicate k ''=d'')) \<inter> set ''/gae/'' = {}"
  by (induction k) auto

lemma rooted_append_suffix: "rooted (x @ concat (replicate k ''=d'')) = rooted x @ concat (replicate k ''=d'')"
  by (cases x; cases k) (simp_all add: rooted_def)

lemma stripGae_append_suffix:
  "stripGae (p @ concat (replicate k ''=d'')) = stripGae p @ concat (replicate k ''=d'')"
  unfolding stripGae_def
  using replaceFirst_append_clean[where b = "concat (replicate k ''=d'')" and pat = "''/gae/''",
      OF set_suffix_d]
  by (simp add: rooted_append_suffix)

lemma not_opaque_iter: "\<not> opaque u \<Longrightarrow> \<not> opaque ((rewriteImageUrl env ^^ k) u)"
  by (induction k) (simp_all add: rewrite_hierarchical)

lemma rewrite_pathname:
  assumes "\<not> opaque u"
  shows "pathname ((rewriteImageUrl env ^^ k) u) = (stripGae ^^ k) (pathname u) @ concat (replicate k ''=d'')"
proof (induction k)
  case 0 then show ?case by simp
next
  case (Suc k)
  have "pathname ((rewriteImageUrl env ^^ Suc k) u)
      = stripGae (pathname ((rewriteImageUrl env ^^ k) u)) @ ''=d''"
    using not_opaque_iter[OF assms, of k] by (simp add: rewrite_hierarchical)
  also have "\<dots> = stripGae ((stripGae ^^ k) (pathname u)) @ concat (replicate k ''=d'') @ ''=d''"
    unfolding Suc.IH by (simp only: stripGae_append_suffix append_assoc)
  also have "concat (replicate k ''=d'') @ ''=d'' = concat (replicate (Suc k) ''=d'')"
  proof -
    have "replicate (Suc k) ''=d'' = replicate k ''=d'' @ [''=d'']"
      by (simp add: replicate_append_same)
    then show ?thesis by (simp only: concat_append) simp
  qed
  finally show ?case by simp
qed

lemma count_replaceFirst:
  "x \<notin> set pat \<Longrightarrow> x \<notin> set rep \<Longrightarrow> count_list (replaceFirst pat rep s) x = count_list s x"
proof (induction s)
  case Nil then show ?case by simp
next
  case (Cons c s)
  show ?case
  proof (cases "prefix pat (c # s)")
    case True
    then obtain z where z: "c # s = pat @ z" by (auto simp: prefix_def)
    have "drop (length pat) (c # s) = z" using z by simp
    moreover have "count_list (c # s) x = count_list pat x + count_list z x"
      unfolding z by simp
    ultimately show ?thesis using True Cons.prems by simp
  next
    case False
    then show ?thesis using Cons by simp
  qed
qed


lemma count_rooted: "count_list (rooted p) CHR ''='' = count_list p CHR ''=''"
  by (simp add: rooted_def)

lemma count_stripGae_iter: "count_list ((stripGae ^^ k) p) CHR ''='' = count_list p CHR ''=''"
  by (induction k) (simp_all add: stripGae_def count_rooted count_replaceFirst)

lemma count_suffix_d: "count_list (concat (replicate k ''=d'')) CHR ''='' = k"
  by (induction k) auto

lemma rewrite_count:
  "\<not> opaque u \<Longrightarrow>
   count_list (pathname ((rewriteImageUrl env ^^ k) u)) CHR ''='' = count_list (pathname u) CHR ''='' + k"
  by (simp add: rewrite_pathname count_stripGae_iter count_suffix_d)

lemma href_rewritten:
  assumes "\<not> opaque u" "0 < k"
  shows "href ((rewriteImageUrl env ^^ k) u) =
     (protocol u @ ''//'' @ credentials u @ ''lh3.googleusercontent.com''
        @ (if port u = [] then [] else CHR '':'' # port u))
       @ pathname ((rewriteImageUrl env ^^ k) u) @ url_hash u"
proof -
  from rewrite_fields[OF assms, of]
  have f: "protocol ((rewriteImageUrl env ^^ k) u) = protocol u" "port ((rewriteImageUrl env ^^ k) u) = port u"
     "url_hash ((rewriteImageUrl env ^^ k) u) = url_hash u"
     "url_username ((rewriteImageUrl env ^^ k) u) = url_username u"
     "url_password ((rewriteImageUrl env ^^ k) u) = url_password u"
     "hostname ((rewriteImageUrl env ^^ k) u) = Some ''lh3.googleusercontent.com''"
     "search ((rewriteImageUrl env ^^ k) u) = []"
    by blast+
  show ?thesis
    unfolding href_def credentials_def f by (simp only: append_assoc append_Nil option.case)
qed

lemma rewrite_href_distinct:
  assumes "\<not> opaque u" "0 < j" "0 < k" "j \<noteq> k"
  shows "href ((rewriteImageUrl env ^^ j) u) \<noteq> href ((rewriteImageUrl env ^^ k) u)"
proof
  assume h: "href ((rewriteImageUrl env ^^ j) u) = href ((rewriteImageUrl env ^^ k) u)"
  have e: "pathname ((rewriteImageUrl env ^^ j) u) = pathname ((rewriteImageUrl env ^^ k) u)"
    using h unfolding href_rewritten[OF assms(1,2)] href_rewritten[OF assms(1,3)]
    by (simp only: same_append_eq append_same_eq)
  have "count_list (pathname u) CHR ''='' + j = count_list (pathname ((rewriteImageUrl env ^^ j) u)) CHR ''=''"
    by (simp only: rewrite_count[OF assms(1)])
  also have "\<dots> = count_list (pathname ((rewriteImageUrl env ^^ k) u)) CHR ''=''"
    by (simp only: e)
  also have "\<dots> = count_list (pathname u) CHR ''='' + k"
    by (rule rewrite_count[OF assms(1)])
  finally show False using assms(4) by simp
qed

lemma rewrite_eval:
  "rewriteImageUrl env \<lparr>protocol = a, url_username = b, url_password = c, hostname = h, port = d,
       opaque = False, pathname = p, search = q, url_hash = f\<rparr>
   = \<lparr>protocol = a, url_username = b, url_password = c, hostname = Some ''lh3.googleusercontent.com'',
       port = d, opaque = False, pathname = stripGae p @ ''=d'', search = [], url_hash = f\<rparr>"
  by (simp add: rewrite_hierarchical)

lemma rewrite_eval_opaque:
  "rewriteImageUrl env \<lparr>protocol = a, url_username = b, url_password = c, hostname = h, port = d,
       opaque = True, pathname = p, search = q, url_hash = f\<rparr>
   = \<lparr>protocol = a, url_username = b, url_password = c, hostname = h,
       port = d, opaque = True,
       pathname = (if strips_spaces env \<and> f = [] then stripTrailingSpaces p else p),
       search = [], url_hash = f\<rparr>"
  by (simp add: rewrite_opaque set_search_empty_def Let_def)


lemma href_eval:
  "href \<lparr>protocol = a, url_username = [], url_password = [], hostname = Some h, port = [],
       opaque = op, pathname = p, search = q, url_hash = f\<rparr> = a @ ''//'' @ h @ p @ q @ f"
  by (simp add: href_def credentials_def)

lemma href_eval_opaque:
  "href \<lparr>protocol = a, url_username = b, url_password = c, hostname = None, port = d,
       opaque = True, pathname = p, search = q, url_hash = f\<rparr> = a @ p @ q @ f"
  by (simp add: href_def)

text \<open>
  C10, as the code has it. Whatever the image host answers and however many attempts the
  retry makes, the attempts fetch, in order, the URL rewritten once, twice, three times and
  so on. When the URL has a path of segments (\<open>https:\<close>, \<open>ipfs://\<close> and the like), the
  path of the \<open>k\<close>-th attempt is the original path with \<open>/gae/\<close> replaced \<open>k\<close> times and
  \<open>k\<close> copies of \<open>=d\<close> appended, and only the first attempt fetches the URL rewritten
  once. When the URL has an opaque path, every attempt fetches the same URL: the original
  one as the removal of its query leaves it.
\<close>

theorem image_attempts_accumulate_suffix:
  assumes "retryWithBackoff (imageAttempt env asset) n d \<lparr>trace = t, files = fs, imageUrl = u\<rparr> = (r, s')"
  shows "\<exists>m\<le>n. fetched (trace s') = fetched t @
            map (\<lambda>k. GetImage (href ((rewriteImageUrl env ^^ k) u))) [1..<Suc m]
         \<and> (\<forall>k\<in>{1..m}.
               if opaque u then (rewriteImageUrl env ^^ k) u = set_search_empty env u
               else pathname ((rewriteImageUrl env ^^ k) u)
                      = (stripGae ^^ k) (pathname u) @ concat (replicate k ''=d'')
                  \<and> (k \<noteq> 1 \<longrightarrow> href ((rewriteImageUrl env ^^ k) u) \<noteq> href (rewriteImageUrl env u)))"
proof -
  from image_retry_fetches[OF assms] obtain m where m: "m \<le> n"
    "fetched (trace s') = fetched t @ map (\<lambda>k. GetImage (href ((rewriteImageUrl env ^^ k) u))) [1..<Suc m]"
    by auto
  have "\<forall>k\<in>{1..m}.
               if opaque u then (rewriteImageUrl env ^^ k) u = set_search_empty env u
               else pathname ((rewriteImageUrl env ^^ k) u)
                      = (stripGae ^^ k) (pathname u) @ concat (replicate k ''=d'')
                  \<and> (k \<noteq> 1 \<longrightarrow> href ((rewriteImageUrl env ^^ k) u) \<noteq> href (rewriteImageUrl env u))"
  proof
    fix k assume k: "k \<in> {1..m}"
    show "if opaque u then (rewriteImageUrl env ^^ k) u = set_search_empty env u
               else pathname ((rewriteImageUrl env ^^ k) u)
                      = (stripGae ^^ k) (pathname u) @ concat (replicate k ''=d'')
                  \<and> (k \<noteq> 1 \<longrightarrow> href ((rewriteImageUrl env ^^ k) u) \<noteq> href (rewriteImageUrl env u))"
    proof (cases "opaque u")
      case True
      then show ?thesis using rewrite_opaque_iter[OF True, of k] k by simp
    next
      case False
      have "k \<noteq> 1 \<Longrightarrow> href ((rewriteImageUrl env ^^ k) u) \<noteq> href (rewriteImageUrl env u)"
        using rewrite_href_distinct[OF False, of k 1] k by simp
      then show ?thesis using False rewrite_pathname[OF False, of k] by simp
    qed
  qed
  with m show ?thesis by blast
qed

lemma third_time_run:
  "retryWithBackoff (imageAttempt thirdTimeEnv (testAsset ''7'')) 5 250
      \<lparr>trace = [], files = Map.empty, imageUrl = testUrl\<rparr>
   = (Inr (pngResponse 200),
      \<lparr>trace = [Fetch (GetImage ''https://lh3.googleusercontent.com/abc=d''), Sleep 250,
                Fetch (GetImage ''https://lh3.googleusercontent.com/abc=d=d''), Sleep 500,
                Fetch (GetImage ''https://lh3.googleusercontent.com/abc=d=d=d'')],
       files = Map.empty,
       imageUrl = testUrl\<lparr>hostname := Some ''lh3.googleusercontent.com'', pathname := ''/abc=d=d=d'',
                          search := []\<rparr>\<rparr>)"
  by (simp add: eval_nat_numeral imageAttempt_def fetch_def rewrite_eval href_eval ok_def
      stripGae_def rooted_def
      sleep_def backoffFactor_def thirdTimeEnv_def testEnv_def thirdTimeHost_def testUrl_def pngResponse_def
      Let_def)

theorem image_attempts_accumulate_suffix_witness:
  "\<exists>m\<le>5. fetched (trace \<lparr>trace = [Fetch (GetImage ''https://lh3.googleusercontent.com/abc=d''), Sleep 250,
                Fetch (GetImage ''https://lh3.googleusercontent.com/abc=d=d''), Sleep 500,
                Fetch (GetImage ''https://lh3.googleusercontent.com/abc=d=d=d'')],
       files = Map.empty,
       imageUrl = testUrl\<lparr>hostname := Some ''lh3.googleusercontent.com'', pathname := ''/abc=d=d=d'',
                          search := []\<rparr>\<rparr>) = fetched [] @
            map (\<lambda>k. GetImage (href ((rewriteImageUrl thirdTimeEnv ^^ k) testUrl))) [1..<Suc m]
         \<and> (\<forall>k\<in>{1..m}.
               if opaque testUrl then (rewriteImageUrl thirdTimeEnv ^^ k) testUrl = set_search_empty thirdTimeEnv testUrl
               else pathname ((rewriteImageUrl thirdTimeEnv ^^ k) testUrl)
                      = (stripGae ^^ k) (pathname testUrl) @ concat (replicate k ''=d'')
                  \<and> (k \<noteq> 1 \<longrightarrow> href ((rewriteImageUrl thirdTimeEnv ^^ k) testUrl) \<noteq> href (rewriteImageUrl thirdTimeEnv testUrl)))"
  by (rule image_attempts_accumulate_suffix[OF third_time_run])

text \<open>
  C10 as stated fails on an image that is a \<open>data:\<close> URL: the assignments to
  \<open>hostname\<close> and \<open>pathname\<close> do nothing, and each of the five attempts fetches the URL as
  it was listed, without any \<open>=d\<close>.
\<close>

theorem image_attempts_data_url_counterexample:
  "retryWithBackoff (imageAttempt testEnv (testAsset ''7'')) 5 250
      \<lparr>trace = [], files = Map.empty, imageUrl = dataUrl\<rparr>
   = (Inl RetryExhausted,
      \<lparr>trace = [Fetch (GetImage ''data:image/png;base64,iVBORw0KGgoA''), Sleep 250,
                Fetch (GetImage ''data:image/png;base64,iVBORw0KGgoA''), Sleep 500,
                Fetch (GetImage ''data:image/png;base64,iVBORw0KGgoA''), Sleep 1000,
                Fetch (GetImage ''data:image/png;base64,iVBORw0KGgoA''), Sleep 2000,
                Fetch (GetImage ''data:image/png;base64,iVBORw0KGgoA'')],
       files = Map.empty, imageUrl = dataUrl\<rparr>)"
  by (simp add: eval_nat_numeral imageAttempt_def fetch_def rewrite_eval_opaque href_eval_opaque ok_def
      noApi_def sleep_def backoffFactor_def testEnv_def dataUrl_def stripTrailingSpaces_def Let_def)

section \<open>Properties of the enrichment and of the harvest\<close>

lemma retry_files:
  assumes "\<And>w r w'. operation w = (r, w') \<Longrightarrow> files w' = files w"
  shows "retryWithBackoff operation n d w = (r, w') \<Longrightarrow> files w' = files w"
proof (induction n arbitrary: w d)
  case 0
  then show ?case by simp
next
  case (Suc n)
  obtain r1 w1 where a: "operation w = (r1, w1)" by (cases "operation w")
  have f1: "files w1 = files w" using assms[OF a] .
  show ?case
  proof (cases r1)
    case (Inr v)
    then show ?thesis using Suc.prems a f1 by simp
  next
    case (Inl e)
    show ?thesis
    proof (cases "n = 0")
      case True
      then show ?thesis using Suc.prems a Inl f1 by simp
    next
      case False
      then have "retryWithBackoff operation n (d * backoffFactor) (sleep d w1) = (r, w')"
        using Suc.prems a Inl by simp
      from Suc.IH[OF this] show ?thesis using f1 by (simp add: sleep_def)
    qed
  qed
qed

lemma apiCall_files: "apiCall api rq w = (r, w') \<Longrightarrow> files w' = files w"
  by (auto simp: apiCall_def fetch_def rateLimit_def sleep_def Let_def
      split: option.splits if_splits prod.splits sum.splits)

lemma fetchWithPagination_files:
  fixes fetcher :: "string option \<Rightarrow> ('z, 't page) io"
  assumes run: "fetchWithPagination fetcher nxt yielded w = Some y"
    and pres: "\<And>c w r w'. fetcher c w = (r, w') \<Longrightarrow> files w' = files w"
  shows "files (snd y) = files w"
proof -
  have "(\<forall>c w r w'. fetcher c w = (r, w') \<longrightarrow> files w' = files w) \<longrightarrow> files (snd y) = files w"
  proof (rule fetchWithPagination.raw_induct[
        where P = "\<lambda>(f :: string option \<Rightarrow> ('z, 't page) io) n ys w y.
          (\<forall>c w r w'. f c w = (r, w') \<longrightarrow> files w' = files w) \<longrightarrow> files (snd y) = files w",
        OF _ run])
    fix fwp and f :: "string option \<Rightarrow> ('z, 't page) io" and n ys w y
    assume IH: "\<And>(a :: string option \<Rightarrow> ('z, 't page) io) b c d y. fwp a b c d = Some y \<Longrightarrow>
        (\<forall>c w r w'. a c w = (r, w') \<longrightarrow> files w' = files w) \<longrightarrow> files (snd y) = files d"
      and eq: "(case retryWithBackoff (f n) 5 250 w of
          (Inl e, w') \<Rightarrow> Some ((ys, Some e), w')
        | (Inr result, w') \<Rightarrow>
            if \<not> truthy (page_next result) then Some ((ys @ [result], None), w')
            else fwp f (page_next result) (ys @ [result]) w') = Some y"
    show "(\<forall>c w r w'. f c w = (r, w') \<longrightarrow> files w' = files w) \<longrightarrow> files (snd y) = files w"
    proof
      assume p: "\<forall>c w r w'. f c w = (r, w') \<longrightarrow> files w' = files w"
      obtain r1 w1 where a: "retryWithBackoff (f n) 5 250 w = (r1, w1)"
        by (cases "retryWithBackoff (f n) 5 250 w")
      have f1: "files w1 = files w"
        using retry_files[of "f n", OF _ a] p by blast
      show "files (snd y) = files w"
      proof (cases r1)
        case (Inl e)
        then show ?thesis using eq a f1 by auto
      next
        case (Inr result)
        show ?thesis
        proof (cases "truthy (page_next result)")
          case False
          then show ?thesis using eq a f1 Inr by auto
        next
          case True
          then have "fwp f (page_next result) (ys @ [result]) w1 = Some y"
            using eq a Inr by simp
          from IH[OF this] p show ?thesis using f1 by simp
        qed
      qed
    qed
  qed
  then show ?thesis using pres by blast
qed

lemma resolveEvents_files:
  "resolveEvents env key asset w = Some (r, w') \<Longrightarrow> files w' = files w"
proof -
  assume a: "resolveEvents env key asset w = Some (r, w')"
  then obtain y where y: "fetchWithPagination (eventsFetcher env key asset) None [] w = Some y"
    and s: "snd y = w'"
    by (auto simp: resolveEvents_def split: option.splits prod.splits)
  have "\<And>c (w::world) r w'. eventsFetcher env key asset c w = (r, w') \<Longrightarrow> files w' = files w"
    unfolding eventsFetcher_def eventsAttempt_def
    by (rule retry_files[OF apiCall_files])
  from fetchWithPagination_files[OF y this] s show ?thesis by simp
qed

lemma resolveOwners_files:
  "resolveOwners env key asset w = Some (r, w') \<Longrightarrow> files w' = files w"
proof -
  assume a: "resolveOwners env key asset w = Some (r, w')"
  then obtain y where y: "fetchWithPagination (ownersFetcher env key asset) None [] w = Some y"
    and s: "snd y = w'"
    by (auto simp: resolveOwners_def split: option.splits prod.splits)
  have "\<And>c (w::world) r w'. ownersFetcher env key asset c w = (r, w') \<Longrightarrow> files w' = files w"
    unfolding ownersFetcher_def by (rule apiCall_files)
  from fetchWithPagination_files[OF y this] s show ?thesis by simp
qed

lemma imageAttempt_files: "imageAttempt env asset s = (r, s') \<Longrightarrow> files s' = files s"
  by (auto simp: imageAttempt_def fetch_def Let_def split: option.splits if_splits)

lemma resolveImage_files:
  "resolveImage env asset u w = (r, u', w') \<Longrightarrow> files w' = files w"
proof -
  assume a: "resolveImage env asset u w = (r, u', w')"
  obtain r1 s1 where b: "retryWithBackoff (imageAttempt env asset) 5 250
             \<lparr>trace = trace w, files = files w, imageUrl = u\<rparr> = (r1, s1)"
    by (cases "retryWithBackoff (imageAttempt env asset) 5 250
             \<lparr>trace = trace w, files = files w, imageUrl = u\<rparr>")
  have "files s1 = files \<lparr>trace = trace w, files = files w, imageUrl = u\<rparr>"
    by (rule retry_files[OF imageAttempt_files b])
  then show ?thesis using a b by (auto simp: resolveImage_def)
qed

lemma enrich_Inr:
  fixes w' :: world
  assumes "enrich env slug key asset w = Some (Inr en, w')"
  shows "\<exists>u u' w1 w2.
      URL_new env (imageSource asset) = Inr u
    \<and> resolveImage env asset u w = (Inr (imageResponse en), u', w1)
    \<and> resolveEvents env key asset w1 = Some (Inr (en_events en), w2)
    \<and> resolveOwners env key asset w2 = Some (Inr (en_owners en), w')
    \<and> en_asset en = asset \<and> en_imageUrl en = u'"
  using assms unfolding enrich_def
  by (auto split: sum.splits option.splits prod.splits)

lemma enrich_files:
  assumes "enrich env slug key asset w = Some (r, w')"
  shows "files w' = files w"
proof (cases "URL_new env (imageSource asset)")
  case (Inl e)
  then show ?thesis using assms by (simp add: enrich_def)
next
  case (Inr u)
  obtain ri u' w1 where i: "resolveImage env asset u w = (ri, u', w1)"
    by (cases "resolveImage env asset u w")
  have f1: "files w1 = files w" by (rule resolveImage_files[OF i])
  show ?thesis
  proof (cases ri)
    case (Inl e)
    then show ?thesis using assms Inr i f1 by (simp add: enrich_def)
  next
    case ri: (Inr resp)
    obtain re w2 where e: "resolveEvents env key asset w1 = Some (re, w2)"
      using assms Inr i ri by (cases "resolveEvents env key asset w1") (auto simp: enrich_def)
    have f2: "files w2 = files w1" by (rule resolveEvents_files[OF e])
    show ?thesis
    proof (cases re)
      case (Inl err)
      then show ?thesis using assms Inr i ri e f1 f2 by (simp add: enrich_def)
    next
      case re: (Inr evs)
      obtain ro w3 where o: "resolveOwners env key asset w2 = Some (ro, w3)"
        using assms Inr i ri e re by (cases "resolveOwners env key asset w2") (auto simp: enrich_def)
      have f3: "files w3 = files w2" by (rule resolveOwners_files[OF o])
      show ?thesis using assms Inr i ri e re o f1 f2 f3
        by (cases ro) (auto simp: enrich_def)
    qed
  qed
qed


lemma writeHarvest_files:
  "files (writeHarvest env en w) =
     (if commits env en
      then (files w)(imagePath env en \<mapsto> ImageFile (the (body (imageResponse en))),
                     jsonPath en \<mapsto> JsonFile (harvestedRecord env en))
      else if body (imageResponse en) \<noteq> None \<and> writable env (imagePath env en)
      then (files w)(imagePath env en \<mapsto> ImageFile (the (body (imageResponse en))))
      else files w)"
  by (auto simp: writeHarvest_def commits_def Let_def split: option.splits)

lemma writeHarvest_json_untouched:
  assumes "\<not> commits env en"
  shows "files (writeHarvest env en w) (jsonPath en) = files w (jsonPath en)"
proof (cases "body (imageResponse en) \<noteq> None \<and> writable env (imagePath env en)")
  case True
  then have "\<not> writable env (jsonPath en)" using assms by (simp add: commits_def)
  then have "imagePath env en \<noteq> jsonPath en" using True by auto
  then show ?thesis using True assms by (simp add: writeHarvest_files)
next
  case False
  then show ?thesis using assms by (auto simp: writeHarvest_files)
qed

text \<open>
  C6. Let the enrichment and write of one asset end with the result \<open>r\<close> in the world
  \<open>w'\<close>. If it failed, no file was written. If the image resolution, the event history
  or the ownership history fails, it failed, with that error. If it succeeded, all three
  succeeded and the record holds what they returned; then either the write of the image and
  of the JSON record went through and the store holds both, or the JSON record of the asset
  is as it was before: no record is stored that lacks its image or part of its histories.
\<close>

theorem enrichment_all_or_nothing:
  assumes "processAsset env slug key asset w = Some (r, w')"
  shows "(\<forall>e. r = Inl e \<longrightarrow> files w' = files w)
    \<and> (\<forall>u. URL_new env (imageSource asset) = Inr u \<longrightarrow>
          (case resolveImage env asset u w of
             (Inl e, _, _) \<Rightarrow> r = Inl e
           | (Inr _, _, w1) \<Rightarrow>
               (case resolveEvents env key asset w1 of
                  None \<Rightarrow> True
                | Some (Inl e, _) \<Rightarrow> r = Inl e
                | Some (Inr _, w2) \<Rightarrow>
                    (case resolveOwners env key asset w2 of
                       None \<Rightarrow> True
                     | Some (Inl e, _) \<Rightarrow> r = Inl e
                     | Some (Inr _, _) \<Rightarrow> True))))
    \<and> (\<forall>en. r = Inr en \<longrightarrow>
          (\<exists>u u' w1 w2 w3.
              URL_new env (imageSource asset) = Inr u
            \<and> resolveImage env asset u w = (Inr (imageResponse en), u', w1)
            \<and> resolveEvents env key asset w1 = Some (Inr (en_events en), w2)
            \<and> resolveOwners env key asset w2 = Some (Inr (en_owners en), w3))
          \<and> (if commits env en
               then files w' = (files w)(imagePath env en \<mapsto> ImageFile (the (body (imageResponse en))),
                                        jsonPath en \<mapsto> JsonFile (harvestedRecord env en))
               else files w' (jsonPath en) = files w (jsonPath en)))"
proof (intro conjI allI impI)
  fix e assume "r = Inl e"
  then have "enrich env slug key asset w = Some (Inl e, w')"
    using assms by (auto simp: processAsset_def split: option.splits sum.splits)
  then show "files w' = files w" by (rule enrich_files)
next
  fix u assume "URL_new env (imageSource asset) = Inr u"
  then show "case resolveImage env asset u w of
             (Inl e, _, _) \<Rightarrow> r = Inl e
           | (Inr _, _, w1) \<Rightarrow>
               (case resolveEvents env key asset w1 of
                  None \<Rightarrow> True
                | Some (Inl e, _) \<Rightarrow> r = Inl e
                | Some (Inr _, w2) \<Rightarrow>
                    (case resolveOwners env key asset w2 of
                       None \<Rightarrow> True
                     | Some (Inl e, _) \<Rightarrow> r = Inl e
                     | Some (Inr _, _) \<Rightarrow> True))"
    using assms
    by (auto simp: processAsset_def enrich_def split: option.splits sum.splits prod.splits)
next
  fix en assume r: "r = Inr en"
  then obtain w3 where en: "enrich env slug key asset w = Some (Inr en, w3)"
    and w': "w' = writeHarvest env en w3"
    using assms by (auto simp: processAsset_def split: option.splits sum.splits)
  from enrich_Inr[OF en]
  show "\<exists>u u' w1 w2 w3.
              URL_new env (imageSource asset) = Inr u
            \<and> resolveImage env asset u w = (Inr (imageResponse en), u', w1)
            \<and> resolveEvents env key asset w1 = Some (Inr (en_events en), w2)
            \<and> resolveOwners env key asset w2 = Some (Inr (en_owners en), w3)"
    by blast
  have f3: "files w3 = files w" by (rule enrich_files[OF en])
  show "if commits env en
               then files w' = (files w)(imagePath env en \<mapsto> ImageFile (the (body (imageResponse en))),
                                        jsonPath en \<mapsto> JsonFile (harvestedRecord env en))
               else files w' (jsonPath en) = files w (jsonPath en)"
  proof (cases "commits env en")
    case True
    then show ?thesis unfolding w' by (simp add: writeHarvest_files f3)
  next
    case False
    then show ?thesis unfolding w' using writeHarvest_json_untouched[OF False, of w3] by (simp add: f3)
  qed
qed

text \<open>
  The listing turns are the rounds of the generator: when \<open>fetchWithPagination\<close>, started
  at the cursor of a state, yields \<open>pages\<close> and ends with \<open>err\<close>, then one listing turn
  for each page it fetched, and one more for the fetch that failed if one did, lead to the
  world the generator ended in, with the assets of the pages pushed in order, and with the
  listing loop left or failed.
\<close>

lemma listing_follows_generator:
  assumes run: "fetchWithPagination (assetsFetcher env slug key) c ys (w :: world) = Some ((pages, err), w')"
    and h: "listing h = Listing" "nextCursor h = c" "world_now h = w" "subscription h = Subscribed"
  shows "\<exists>n h'. (listingTurn env slug key ^^ n) h = h'
           \<and> world_now h' = w'
           \<and> listing h' = (case err of None \<Rightarrow> Ended | Some e \<Rightarrow> Failed e)
           \<and> queue h' = queue h @ listedAssets (drop (length ys) pages)
           \<and> Suc (length pages) = length ys + n + (case err of None \<Rightarrow> 1 | Some e \<Rightarrow> 0)"
proof -
  have "\<forall>h. (assetsFetcher env slug key :: string option \<Rightarrow> (unit, CollectionAsset list option page) io)
              = assetsFetcher env slug key \<longrightarrow>
          listing h = Listing \<and> nextCursor h = c \<and> world_now h = w \<and> subscription h = Subscribed \<longrightarrow>
          (\<exists>n h'. (listingTurn env slug key ^^ n) h = h'
           \<and> world_now h' = snd ((pages, err), w')
           \<and> listing h' = (case snd (fst ((pages, err), w')) of None \<Rightarrow> Ended | Some e \<Rightarrow> Failed e)
           \<and> queue h' = queue h @ listedAssets (drop (length ys) (fst (fst ((pages, err), w'))))
           \<and> Suc (length (fst (fst ((pages, err), w')))) = length ys + n
                + (case snd (fst ((pages, err), w')) of None \<Rightarrow> 1 | Some e \<Rightarrow> 0)
           \<and> take (length ys) (fst (fst ((pages, err), w'))) = ys)"
  proof (rule fetchWithPagination.raw_induct[
        where P = "\<lambda>(f :: string option \<Rightarrow> (unit, CollectionAsset list option page) io) c ys w y.
          \<forall>h. f = assetsFetcher env slug key \<longrightarrow>
          listing h = Listing \<and> nextCursor h = c \<and> world_now h = w \<and> subscription h = Subscribed \<longrightarrow>
          (\<exists>n h'. (listingTurn env slug key ^^ n) h = h'
           \<and> world_now h' = snd y
           \<and> listing h' = (case snd (fst y) of None \<Rightarrow> Ended | Some e \<Rightarrow> Failed e)
           \<and> queue h' = queue h @ listedAssets (drop (length ys) (fst (fst y)))
           \<and> Suc (length (fst (fst y))) = length ys + n + (case snd (fst y) of None \<Rightarrow> 1 | Some e \<Rightarrow> 0)
           \<and> take (length ys) (fst (fst y)) = ys)",
        OF _ run])
    fix fwp and f :: "string option \<Rightarrow> (unit, CollectionAsset list option page) io" and c ys w y
    assume IH: "\<And>(a :: string option \<Rightarrow> (unit, CollectionAsset list option page) io) b c d y.
        fwp a b c d = Some y \<Longrightarrow>
        \<forall>h. a = assetsFetcher env slug key \<longrightarrow>
          listing h = Listing \<and> nextCursor h = b \<and> world_now h = d \<and> subscription h = Subscribed \<longrightarrow>
          (\<exists>n h'. (listingTurn env slug key ^^ n) h = h'
           \<and> world_now h' = snd y
           \<and> listing h' = (case snd (fst y) of None \<Rightarrow> Ended | Some e \<Rightarrow> Failed e)
           \<and> queue h' = queue h @ listedAssets (drop (length c) (fst (fst y)))
           \<and> Suc (length (fst (fst y))) = length c + n + (case snd (fst y) of None \<Rightarrow> 1 | Some e \<Rightarrow> 0)
           \<and> take (length c) (fst (fst y)) = c)"
      and eq: "(case retryWithBackoff (f c) 5 250 w of
          (Inl e, w') \<Rightarrow> Some ((ys, Some e), w')
        | (Inr result, w') \<Rightarrow>
            if \<not> truthy (page_next result) then Some ((ys @ [result], None), w')
            else fwp f (page_next result) (ys @ [result]) w') = Some y"
    show "\<forall>h. f = assetsFetcher env slug key \<longrightarrow>
          listing h = Listing \<and> nextCursor h = c \<and> world_now h = w \<and> subscription h = Subscribed \<longrightarrow>
          (\<exists>n h'. (listingTurn env slug key ^^ n) h = h'
           \<and> world_now h' = snd y
           \<and> listing h' = (case snd (fst y) of None \<Rightarrow> Ended | Some e \<Rightarrow> Failed e)
           \<and> queue h' = queue h @ listedAssets (drop (length ys) (fst (fst y)))
           \<and> Suc (length (fst (fst y))) = length ys + n + (case snd (fst y) of None \<Rightarrow> 1 | Some e \<Rightarrow> 0)
           \<and> take (length ys) (fst (fst y)) = ys)"
    proof (intro allI impI)
      fix h :: harvest
      assume f: "f = assetsFetcher env slug key"
        and hh: "listing h = Listing \<and> nextCursor h = c \<and> world_now h = w \<and> subscription h = Subscribed"
      obtain r1 w1 where a: "retryWithBackoff (assetsFetcher env slug key (nextCursor h)) 5 250 (world_now h) = (r1, w1)"
        by (cases "retryWithBackoff (assetsFetcher env slug key (nextCursor h)) 5 250 (world_now h)")
      then have a': "retryWithBackoff (f c) 5 250 w = (r1, w1)" using f hh by simp
      show "\<exists>n h'. (listingTurn env slug key ^^ n) h = h'
           \<and> world_now h' = snd y
           \<and> listing h' = (case snd (fst y) of None \<Rightarrow> Ended | Some e \<Rightarrow> Failed e)
           \<and> queue h' = queue h @ listedAssets (drop (length ys) (fst (fst y)))
           \<and> Suc (length (fst (fst y))) = length ys + n + (case snd (fst y) of None \<Rightarrow> 1 | Some e \<Rightarrow> 0)
           \<and> take (length ys) (fst (fst y)) = ys"
      proof (cases r1)
        case (Inl e)
        then have y: "y = ((ys, Some e), w1)" using eq a' by simp
        have t: "listingTurn env slug key h = h\<lparr>world_now := w1, listing := Failed e, promise := Rejected e\<rparr>"
          using hh a Inl by (simp add: listingTurn_def)
        show ?thesis
          by (rule exI[of _ 1]) (simp add: t y listedAssets_def)
      next
        case (Inr result)
        define h1 where "h1 = h\<lparr>world_now := w1, queue := queue h @ orEmpty (payload result)\<rparr>"
        show ?thesis
        proof (cases "truthy (page_next result)")
          case False
          then have y: "y = ((ys @ [result], None), w1)" using eq a' Inr by simp
          have t: "listingTurn env slug key h = awaitFinished (h1\<lparr>listing := Ended\<rparr>)"
            using hh a Inr False by (simp add: listingTurn_def h1_def Let_def)
          show ?thesis
            by (rule exI[of _ 1]) (simp add: t y listedAssets_def h1_def awaitFinished_def hh)
        next
          case True
          then have rec: "fwp f (page_next result) (ys @ [result]) w1 = Some y"
            using eq a' Inr by simp
          have t: "listingTurn env slug key h = h1\<lparr>nextCursor := page_next result\<rparr>"
            using hh a Inr True by (simp add: listingTurn_def h1_def Let_def)
          let ?h2 = "h1\<lparr>nextCursor := page_next result\<rparr>"
          have "listing ?h2 = Listing \<and> nextCursor ?h2 = page_next result \<and> world_now ?h2 = w1
              \<and> subscription ?h2 = Subscribed"
            using hh by (simp add: h1_def)
          with IH[OF rec] f obtain n h' where n: "(listingTurn env slug key ^^ n) ?h2 = h'"
            "world_now h' = snd y"
            "listing h' = (case snd (fst y) of None \<Rightarrow> Ended | Some e \<Rightarrow> Failed e)"
            "queue h' = queue ?h2 @ listedAssets (drop (length (ys @ [result])) (fst (fst y)))"
            "Suc (length (fst (fst y))) = length (ys @ [result]) + n
                + (case snd (fst y) of None \<Rightarrow> 1 | Some e \<Rightarrow> 0)"
            "take (length (ys @ [result])) (fst (fst y)) = ys @ [result]"
            by blast
          have step: "(listingTurn env slug key ^^ Suc n) h = h'"
            using n(1) t by (simp add: funpow_swap1)
          have pre: "take (Suc (length ys)) (fst (fst y)) = ys @ [result]" using n(6) by simp
          have sp: "fst (fst y) = (ys @ [result]) @ drop (Suc (length ys)) (fst (fst y))"
            using append_take_drop_id[of "Suc (length ys)" "fst (fst y)"] pre by simp
          have d: "drop (length ys) (fst (fst y)) = result # drop (Suc (length ys)) (fst (fst y))"
            by (subst sp) simp
          have t1: "take (length ys) (fst (fst y)) = ys"
            by (subst sp) simp
          have q: "queue h' = queue h @ listedAssets (drop (length ys) (fst (fst y)))"
            using n(4) by (simp add: d h1_def listedAssets_def)
          show ?thesis
            using step n(2,3,5) q t1 by (intro exI[of _ "Suc n"] exI[of _ h']) simp

        qed
      qed
    qed
  qed
  then show ?thesis using h by simp blast
qed

lemma settles_started: "settles mode (started w)"
  by (simp add: settles_def started_def)

lemma running_errored:
  assumes "settles mode h" "running h" "subscription h = Errored e"
  shows "listing h \<noteq> Ended \<and> mode = Warn \<and> queue h = []"
proof -
  have p: "promise h = Pending" "exited h = None" using assms(2) by (simp_all add: running_def)
  have i: "queue h = [] \<and> (if listing h = Ended
          then promise h = Resolved \<and> exited h = None
             \<and> trace (world_now h) \<noteq> [] \<and> last (trace (world_now h)) = ConsoleError e
          else case mode of Throw \<Rightarrow> exited h = Some e | Warn \<Rightarrow> exited h = None)"
    using assms(1,3) unfolding settles_def by blast
  show ?thesis
  proof (cases "listing h = Ended")
    case True
    then show ?thesis using i p by simp
  next
    case False
    then show ?thesis using i p by (cases mode) simp_all
  qed
qed

lemma settles_awaitFinished:
  assumes "listing h = Ended" "promise h = Pending" "exited h = None"
    and "\<And>e. subscription h = Errored e \<Longrightarrow> queue h = []"
  shows "settles mode (awaitFinished h)"
proof (cases "subscription h")
  case Subscribed
  then show ?thesis using assms(1-3) by (simp add: settles_def awaitFinished_def)
next
  case (Errored err)
  then show ?thesis using assms(1-3) assms(4)[OF Errored] by (simp add: settles_def awaitFinished_def)
qed

lemma settles_pending:
  assumes "promise h = Pending" "exited h = None"
    and "\<And>e. subscription h = Errored e \<Longrightarrow> listing h \<noteq> Ended \<and> mode = Warn \<and> queue h = []"
  shows "settles mode h"
  unfolding settles_def using assms by (simp add: rejections.case)

lemma settles_listingTurn:
  assumes "settles mode h" "running h"
  shows "settles mode (listingTurn env slug key h)"
proof (cases "listing h")
  case Listing
  have p: "promise h = Pending" "exited h = None" using assms(2) by (simp_all add: running_def)
  obtain r w' where a: "retryWithBackoff (assetsFetcher env slug key (nextCursor h)) 5 250 (world_now h) = (r, w')"
    by (cases "retryWithBackoff (assetsFetcher env slug key (nextCursor h)) 5 250 (world_now h)")
  show ?thesis
  proof (cases r)
    case (Inl e)
    have eq: "listingTurn env slug key h = h\<lparr>world_now := w', listing := Failed e, promise := Rejected e\<rparr>"
      using Listing a Inl by (simp add: listingTurn_def)
    have "\<And>err. subscription h = Errored err \<Longrightarrow> mode = Warn \<and> queue h = []"
      using running_errored[OF assms] by blast
    then show ?thesis unfolding eq settles_def using p by (simp add: rejections.case)
  next
    case (Inr pg)
    define h1 where "h1 = h\<lparr>world_now := w',
                           queue := (case subscription h of
                                       Subscribed \<Rightarrow> queue h @ orEmpty (payload pg)
                                     | Errored _ \<Rightarrow> [])\<rparr>"
    have eq: "listingTurn env slug key h =
        (if truthy (page_next pg) then h1\<lparr>nextCursor := page_next pg\<rparr>
         else awaitFinished (h1\<lparr>listing := Ended\<rparr>))"
      using Listing a Inr by (simp add: listingTurn_def h1_def Let_def)
    show ?thesis
    proof (cases "truthy (page_next pg)")
      case True
      have "settles mode (h1\<lparr>nextCursor := page_next pg\<rparr>)"
      proof (rule settles_pending)
        show "promise (h1\<lparr>nextCursor := page_next pg\<rparr>) = Pending" using p by (simp add: h1_def)
        show "exited (h1\<lparr>nextCursor := page_next pg\<rparr>) = None" using p by (simp add: h1_def)
        fix e assume "subscription (h1\<lparr>nextCursor := page_next pg\<rparr>) = Errored e"
        then have e: "subscription h = Errored e" by (simp add: h1_def)
        from running_errored[OF assms this]
        show "listing (h1\<lparr>nextCursor := page_next pg\<rparr>) \<noteq> Ended \<and> mode = Warn
            \<and> queue (h1\<lparr>nextCursor := page_next pg\<rparr>) = []"
          using e by (simp add: h1_def)
      qed
      then show ?thesis using eq True by simp
    next
      case False
      have "settles mode (awaitFinished (h1\<lparr>listing := Ended\<rparr>))"
      proof (rule settles_awaitFinished)
        fix e assume "subscription (h1\<lparr>listing := Ended\<rparr>) = Errored e"
        then show "queue (h1\<lparr>listing := Ended\<rparr>) = []" by (simp add: h1_def)
      qed (simp_all add: h1_def p)
      then show ?thesis using eq False by simp
    qed
  qed
next
  case Ended
  then show ?thesis using assms by (simp add: listingTurn_def)
next
  case (Failed e)
  then show ?thesis using assms by (simp add: listingTurn_def)
qed

lemma settles_unhandled:
  assumes "promise h = Pending" "exited h = None" "subscription h = Errored err" "listing h \<noteq> Ended"
    and "queue h = []"
  shows "settles mode (unhandledRejection mode err h)"
  using assms by (cases mode) (simp_all add: settles_def unhandledRejection_def)

lemma settles_write_failed:
  assumes "settles mode h" "subscription h = Subscribed"
  shows "settles mode (unhandledRejection mode err h)"
  using assms by (cases mode) (simp_all add: settles_def unhandledRejection_def)

lemma settles_subscriptionTurn:
  assumes "settles mode h" "running h" "subscriptionTurn env mode slug key h = Some h'"
  shows "settles mode h'"
proof (cases "subscription h")
  case (Errored e)
  then show ?thesis using assms by (simp add: subscriptionTurn_def)
next
  case Subscribed
  have p: "promise h = Pending" "exited h = None" using assms(2) by (simp_all add: running_def)
  show ?thesis
  proof (cases "queue h")
    case Nil
    then show ?thesis using assms Subscribed by (simp add: subscriptionTurn_def)
  next
    case (Cons asset waiting)
    then obtain r w' where pa: "processAsset env slug key asset (world_now h) = Some (r, w')"
      using assms(3) Subscribed by (cases "processAsset env slug key asset (world_now h)")
        (auto simp: subscriptionTurn_def)
    show ?thesis
    proof (cases r)
      case (Inl err)
      define h1 where "h1 = h\<lparr>world_now := w', queue := [], subscription := Errored err\<rparr>"
      have eq: "h' = (if listing h = Ended then awaitFinished h1 else unhandledRejection mode err h1)"
        using assms(3) Subscribed Cons pa Inl by (auto simp: subscriptionTurn_def h1_def Let_def)
      show ?thesis
      proof (cases "listing h = Ended")
        case True
        have "settles mode (awaitFinished h1)"
          by (rule settles_awaitFinished) (simp_all add: h1_def p True)
        then show ?thesis using eq True by simp
      next
        case False
        have "settles mode (unhandledRejection mode err h1)"
          by (rule settles_unhandled) (simp_all add: h1_def p False)
        then show ?thesis using eq False by simp
      qed
    next
      case (Inr en)
      define h1 where "h1 = h\<lparr>world_now := w', queue := waiting\<rparr>"
      define h2 where "h2 = (if listing h = Ended then awaitFinished h1 else h1)"
      have eq: "h' = (case writeError env en of None \<Rightarrow> h2 | Some err \<Rightarrow> unhandledRejection mode err h2)"
        unfolding h2_def h1_def using assms(3) Subscribed Cons pa Inr
        by (auto simp: subscriptionTurn_def Let_def)
      have s2: "subscription h2 = Subscribed"
        using Subscribed by (simp add: h2_def h1_def awaitFinished_def)
      have "settles mode h2"
      proof (cases "listing h = Ended")
        case True
        have "settles mode (awaitFinished h1)"
          by (rule settles_awaitFinished) (simp_all add: h1_def p True Subscribed)
        then show ?thesis using True by (simp add: h2_def)
      next
        case False
        have "settles mode h1"
          by (rule settles_pending) (simp_all add: h1_def p Subscribed)
        then show ?thesis using False by (simp add: h2_def)
      qed
      then show ?thesis unfolding eq using settles_write_failed[OF _ s2]
        by (cases "writeError env en") simp_all
    qed
  qed
qed

lemma settles_takeTurn:
  assumes "settles mode h" "running h" "takeTurn env mode slug key t h = Some h1"
  shows "settles mode h1"
proof (cases t)
  case ListingTurn
  then have "h1 = listingTurn env slug key h" using assms(3) by (simp add: takeTurn_def)
  then show ?thesis using settles_listingTurn[OF assms(1,2)] by simp
next
  case SubscriptionTurn
  then have "subscriptionTurn env mode slug key h = Some h1" using assms(3) by (simp add: takeTurn_def)
  then show ?thesis by (rule settles_subscriptionTurn[OF assms(1,2)])
qed

lemma settles_run:
  "settles mode h \<Longrightarrow> run env mode slug key schedule h = Some h' \<Longrightarrow> settles mode h'"
proof (induction schedule arbitrary: h)
  case Nil
  then show ?case by simp
next
  case (Cons t schedule)
  show ?case
  proof (cases "running h")
    case False
    then have "h' = h" using Cons.prems(2) by simp
    then show ?thesis using Cons.prems(1) by simp
  next
    case True
    show ?thesis
    proof (cases "takeTurn env mode slug key t h")
      case None
      then show ?thesis using Cons.prems(2) True by simp
    next
      case (Some h1)
      then have r: "run env mode slug key schedule h1 = Some h'"
        using Cons.prems(2) True by simp
      have "settles mode h1" by (rule settles_takeTurn[OF Cons.prems(1) True Some])
      from Cons.IH[OF this r] show ?thesis .
    qed
  qed
qed

lemma run_settled: "\<not> running h \<Longrightarrow> run env mode slug key schedule h = Some h"
  by (cases schedule) simp_all

lemma run_append:
  "run env mode slug key (xs @ ys) h =
     (case run env mode slug key xs h of
        None \<Rightarrow> None
      | Some h' \<Rightarrow> run env mode slug key ys h')"
proof (induction xs arbitrary: h)
  case Nil
  then show ?case by simp
next
  case (Cons t xs)
  show ?case
  proof (cases "running h")
    case False
    then show ?thesis by (simp add: run_settled)
  next
    case True
    then show ?thesis using Cons.IH by (cases "takeTurn env mode slug key t h") simp_all
  qed
qed

text \<open>
  The turn at which an enrichment fails: the subscription errors with the error of the
  enrichment, which is printed at once if the listing loop has been left.
\<close>

lemma failing_enrichment_turn:
  assumes "downloadMetadata env mode slug key schedule w = Some h"
    and "running h" "subscription h = Subscribed" "queue h = asset # waiting"
    and "processAsset env slug key asset (world_now h) = Some (Inl e, w')"
  shows "\<exists>h'. downloadMetadata env mode slug key (schedule @ [SubscriptionTurn]) w = Some h'
           \<and> subscription h' = Errored e \<and> listing h' = listing h
           \<and> world_now h' = (if listing h = Ended then w'\<lparr>trace := trace w' @ [ConsoleError e]\<rparr> else w')"
proof -
  define h1 where "h1 = h\<lparr>world_now := w', queue := [], subscription := Errored e\<rparr>"
  define h' where "h' = (if listing h = Ended then awaitFinished h1 else unhandledRejection mode e h1)"
  have t: "takeTurn env mode slug key SubscriptionTurn h = Some h'"
    using assms(3-5) by (simp add: takeTurn_def subscriptionTurn_def h'_def h1_def Let_def)
  have "run env mode slug key (schedule @ [SubscriptionTurn]) (started w) = Some h'"
    using assms(1,2) t by (simp add: run_append downloadMetadata_def)
  then have r: "downloadMetadata env mode slug key (schedule @ [SubscriptionTurn]) w = Some h'"
    by (simp add: downloadMetadata_def)
  have "subscription h' = Errored e \<and> listing h' = listing h
           \<and> world_now h' = (if listing h = Ended then w'\<lparr>trace := trace w' @ [ConsoleError e]\<rparr> else w')"
    by (cases mode) (simp_all add: h'_def h1_def awaitFinished_def unhandledRejection_def)
  with r show ?thesis by blast
qed

text \<open>
  C1, as the code has it. Take the state a harvest has reached, under any schedule and on
  either platform. \<open>downloadMetadata\<close> has been rejected only if the listing failed, and
  then with the error of the listing. If an enrichment has failed, with the error \<open>e\<close>,
  no asset waits any more, and: either the listing loop has been left, and then
  \<open>downloadMetadata\<close> has completed normally, the last thing it did being to print \<open>e\<close>
  on the error console; or the listing loop has not been left, and then
  \<open>downloadMetadata\<close> has not completed and the rejection was unhandled, so that the
  process has ended with \<open>e\<close> where that is fatal and goes on where it is not.
\<close>

theorem downloadMetadata_prints_enrichment_error:
  assumes "downloadMetadata env mode slug key schedule w = Some h"
  shows "(\<forall>e. promise h = Rejected e \<longrightarrow> listing h = Failed e)
       \<and> (\<forall>e. subscription h = Errored e \<longrightarrow>
            queue h = []
          \<and> (if listing h = Ended
             then promise h = Resolved \<and> exited h = None
                \<and> trace (world_now h) \<noteq> [] \<and> last (trace (world_now h)) = ConsoleError e
             else promise h \<noteq> Resolved
                \<and> (case mode of Throw \<Rightarrow> exited h = Some e | Warn \<Rightarrow> exited h = None)))"
proof -
  have r: "run env mode slug key schedule (started w) = Some h"
    using assms by (simp only: downloadMetadata_def)
  have s: "settles mode h"
    by (rule settles_run[OF settles_started r])
  have 1: "\<forall>e. promise h = Rejected e \<longrightarrow> listing h = Failed e"
    using s unfolding settles_def by (rule conjunct1)
  have 2: "promise h = Resolved \<longrightarrow> listing h = Ended"
    using s unfolding settles_def by blast
  have 3: "\<forall>e. subscription h = Errored e \<longrightarrow> queue h = [] \<and>
         (if listing h = Ended
          then promise h = Resolved \<and> exited h = None
             \<and> trace (world_now h) \<noteq> [] \<and> last (trace (world_now h)) = ConsoleError e
          else case mode of Throw \<Rightarrow> exited h = Some e | Warn \<Rightarrow> exited h = None)"
    using s unfolding settles_def by blast
  show ?thesis
  proof (intro conjI allI impI)
    fix e assume "promise h = Rejected e"
    then show "listing h = Failed e" using 1 by blast
  next
    fix e assume e: "subscription h = Errored e"
    then show "queue h = []" using 3 by blast
    show "if listing h = Ended
             then promise h = Resolved \<and> exited h = None
                \<and> trace (world_now h) \<noteq> [] \<and> last (trace (world_now h)) = ConsoleError e
             else promise h \<noteq> Resolved
                \<and> (case mode of Throw \<Rightarrow> exited h = Some e | Warn \<Rightarrow> exited h = None)"
    proof (cases "listing h = Ended")
      case True
      then show ?thesis using 3 e by simp
    next
      case False
      then show ?thesis using 2 3 e by simp
    qed
  qed
qed

lemmas harvest_defs = assetsFetcher_def apiCall_def fetch_def rateLimit_def json_def
  pagedApi_def cursorOf_def offsetOf_def unaryCursor_def truthy_def world0_def Let_def
  harvestEnv_def testAsset_def testUrl_def pngResponse_def onceHost_def failingHost_def testEvents_def testOwners_def
  listingTrace_def asset7Trace_def asset8Trace_def asset7Enriched_def asset7Record_def asset7Files_def
  processAsset_def enrich_def imageSource_def URL_new_def resolveImage_def imageAttempt_def rewrite_eval
  href_eval stripGae_def rooted_def ok_def sleep_def backoffFactor_def resolveEvents_def resolveOwners_def
  eventsFetcher_def eventsAttempt_def ownersFetcher_def orEmpty_def writeHarvest_def imagePath_def jsonPath_def
  imageFile_def harvestedRecord_def

lemma asset7_run:
  "processAsset (harvestEnv [testAsset ''7'', testAsset ''8''] onceHost) ''slug'' ''key'' (testAsset ''7'')
      \<lparr>trace = listingTrace, files = Map.empty\<rparr>
   = Some (Inr asset7Enriched, \<lparr>trace = listingTrace @ asset7Trace, files = asset7Files\<rparr>)"
  by (simp add: fetchWithPagination.simps eval_nat_numeral harvest_defs)

lemma asset8_run:
  "processAsset (harvestEnv [testAsset ''7'', testAsset ''8''] onceHost) ''slug'' ''key'' (testAsset ''8'')
      \<lparr>trace = listingTrace @ asset7Trace, files = asset7Files\<rparr>
   = Some (Inl RetryExhausted, \<lparr>trace = listingTrace @ asset7Trace @ asset8Trace, files = asset7Files\<rparr>)"
  by (simp add: fetchWithPagination.simps eval_nat_numeral harvest_defs)

text \<open>
  Two harvests. In the first the listing has two pages and is faster than the enrichments:
  asset 7 is harvested, the image of asset 8 cannot be fetched. In the second the first page
  lists an asset without image, whose enrichment fails before the second page arrives.
\<close>

lemma started_pending: "promise (started w) = Pending" "exited (started w) = None"
  by (simp_all add: started_def)

lemma page1_run:
  "listingTurn (harvestEnv [testAsset ''7'', testAsset ''8''] onceHost) ''slug'' ''key'' (started world0)
   = \<lparr>world_now = \<lparr>trace = [Fetch (GetAssets ''key'' ''slug'' None)], files = Map.empty\<rparr>,
      nextCursor = Some ''c'', listing = Listing, queue = [testAsset ''7''],
      subscription = Subscribed, promise = Pending, exited = None\<rparr>"
  by (simp add: listingTurn_def started_def eval_nat_numeral harvest_defs)

lemma page2_run:
  "listingTurn (harvestEnv [testAsset ''7'', testAsset ''8''] onceHost) ''slug'' ''key''
     \<lparr>world_now = \<lparr>trace = [Fetch (GetAssets ''key'' ''slug'' None)], files = Map.empty\<rparr>,
      nextCursor = Some ''c'', listing = Listing, queue = [testAsset ''7''],
      subscription = Subscribed, promise = Pending, exited = None\<rparr>
   = \<lparr>world_now = \<lparr>trace = listingTrace, files = Map.empty\<rparr>,
      nextCursor = Some ''c'', listing = Ended, queue = [testAsset ''7'', testAsset ''8''],
      subscription = Subscribed, promise = Pending, exited = None\<rparr>"
  by (simp add: listingTurn_def awaitFinished_def eval_nat_numeral harvest_defs)

lemma asset7_commits: "writeError (harvestEnv [testAsset ''7'', testAsset ''8''] onceHost) asset7Enriched = None"
  by (simp add: writeError_def harvest_defs)

lemma two_page_run:
  "downloadMetadata (harvestEnv [testAsset ''7'', testAsset ''8''] onceHost) Throw ''slug'' ''key''
     [ListingTurn, ListingTurn, SubscriptionTurn, SubscriptionTurn] world0
   = Some \<lparr>world_now = \<lparr>trace = listingTrace @ asset7Trace @ asset8Trace @ [ConsoleError RetryExhausted],
                           files = asset7Files\<rparr>,
      nextCursor = Some ''c'', listing = Ended, queue = [],
      subscription = Errored RetryExhausted, promise = Resolved, exited = None\<rparr>"
  by (simp add: downloadMetadata_def takeTurn_def started_pending running_def page1_run page2_run
      subscriptionTurn_def asset7_run asset8_run asset7_commits awaitFinished_def)

lemma early_failure_run:
  "downloadMetadata (harvestEnv [plainAsset, testAsset ''8''] failingHost) Throw ''slug'' ''key''
     [ListingTurn, SubscriptionTurn] world0
   = Some \<lparr>world_now = \<lparr>trace = [Fetch (GetAssets ''key'' ''slug'' None)], files = Map.empty\<rparr>,
      nextCursor = Some ''c'', listing = Listing, queue = [],
      subscription = Errored TypeError, promise = Pending, exited = Some TypeError\<rparr>"
  by (simp add: downloadMetadata_def takeTurn_def running_def started_def listingTurn_def
      subscriptionTurn_def unhandledRejection_def plainAsset_def eval_nat_numeral harvest_defs)

text \<open>
  C1 as stated fails: here the listing has one page, the image of its only asset cannot be
  fetched, the retries are exhausted, and \<open>downloadMetadata\<close> completes normally after
  printing the error.
\<close>

theorem downloadMetadata_resolves_counterexample:
  "downloadMetadata (harvestEnv [testAsset ''8''] failingHost) Throw ''slug'' ''key''
     [ListingTurn, SubscriptionTurn] world0
   = Some \<lparr>world_now = \<lparr>trace = [Fetch (GetAssets ''key'' ''slug'' None)] @ asset8Trace
                                     @ [ConsoleError RetryExhausted],
                           files = Map.empty\<rparr>,
      nextCursor = None, listing = Ended, queue = [],
      subscription = Errored RetryExhausted, promise = Resolved, exited = None\<rparr>"
  by (simp add: downloadMetadata_def takeTurn_def running_def started_def listingTurn_def
      subscriptionTurn_def awaitFinished_def eval_nat_numeral harvest_defs)

theorem downloadMetadata_prints_enrichment_error_witness:
  "promise \<lparr>world_now = \<lparr>trace = listingTrace @ asset7Trace @ asset8Trace @ [ConsoleError RetryExhausted],
                           files = asset7Files\<rparr>,
      nextCursor = Some ''c'', listing = Ended, queue = [],
      subscription = Errored RetryExhausted, promise = Resolved, exited = None\<rparr> = Resolved
   \<and> last (listingTrace @ asset7Trace @ asset8Trace @ [ConsoleError RetryExhausted]) = ConsoleError RetryExhausted
   \<and> exited \<lparr>world_now = \<lparr>trace = [Fetch (GetAssets ''key'' ''slug'' None)], files = Map.empty\<rparr>,
      nextCursor = Some ''c'', listing = Listing, queue = [],
      subscription = Errored TypeError, promise = Pending, exited = Some TypeError\<rparr> = Some TypeError"
  using downloadMetadata_prints_enrichment_error[OF two_page_run]
    downloadMetadata_prints_enrichment_error[OF early_failure_run]
  by simp

theorem enrichment_all_or_nothing_witness:
  "commits (harvestEnv [testAsset ''7'', testAsset ''8''] onceHost) asset7Enriched
   \<and> asset7Files =
       (Map.empty)(imagePath (harvestEnv [testAsset ''7'', testAsset ''8''] onceHost) asset7Enriched
            \<mapsto> ImageFile (the (body (imageResponse asset7Enriched))),
          jsonPath asset7Enriched
            \<mapsto> JsonFile (harvestedRecord (harvestEnv [testAsset ''7'', testAsset ''8''] onceHost) asset7Enriched))
   \<and> files \<lparr>trace = listingTrace @ asset7Trace @ asset8Trace, files = asset7Files\<rparr>
       = files \<lparr>trace = listingTrace @ asset7Trace, files = asset7Files\<rparr>"
proof -
  have c: "commits (harvestEnv [testAsset ''7'', testAsset ''8''] onceHost) asset7Enriched"
    by (simp add: commits_def harvest_defs)
  from enrichment_all_or_nothing[OF asset7_run] c
  have 1: "files \<lparr>trace = listingTrace @ asset7Trace, files = asset7Files\<rparr> =
       (files \<lparr>trace = listingTrace, files = Map.empty\<rparr>)
         (imagePath (harvestEnv [testAsset ''7'', testAsset ''8''] onceHost) asset7Enriched
            \<mapsto> ImageFile (the (body (imageResponse asset7Enriched))),
          jsonPath asset7Enriched
            \<mapsto> JsonFile (harvestedRecord (harvestEnv [testAsset ''7'', testAsset ''8''] onceHost) asset7Enriched))"
    by simp
  from enrichment_all_or_nothing[OF asset8_run]
  have 2: "files \<lparr>trace = listingTrace @ asset7Trace @ asset8Trace, files = asset7Files\<rparr>
       = files \<lparr>trace = listingTrace @ asset7Trace, files = asset7Files\<rparr>"
    by blast
  show ?thesis using c 1 2 by simp
qed

section \<open>Properties of the scheduling\<close>

declare drainBuffer.simps [simp del]

lemma drainBuffer_bound:
  "length (active s) \<le> concurrent \<Longrightarrow> length (active (drainBuffer concurrent s)) \<le> concurrent"
proof (induction concurrent s rule: drainBuffer.induct)
  case (1 concurrent s)
  show ?case
  proof (cases "buffer s \<noteq> [] \<and> length (active s) < concurrent")
    case True
    have "length (active (doInnerSub (hd (buffer s)) (s\<lparr>buffer := tl (buffer s)\<rparr>))) \<le> concurrent"
      using True by (simp add: doInnerSub_def)
    from "1.IH"[OF True this] show ?thesis
      using True by (subst drainBuffer.simps) simp
  next
    case False
    then show ?thesis using "1.prems" by (subst drainBuffer.simps) auto
  qed
qed

lemma reachable_bound:
  "reachable concurrent s \<Longrightarrow> length (active s) \<le> concurrent"
proof (induction rule: reachable.induct)
  case subscribed
  then show ?case by simp
next
  case (pushed s v)
  then show ?case by (auto simp: outerNext_def doInnerSub_def)
next
  case (settled s v)
  have "length (remove1 v (active s)) \<le> concurrent"
    using settled.IH by (auto simp: length_remove1)
  then show ?case
    unfolding innerComplete_def by (intro drainBuffer_bound) simp
next
  case (failed s v)
  then show ?case by (simp add: innerError_def)
qed

text \<open>
  C9. In every state the subscription can reach, whatever the order in which assets arrive
  and enrichments settle, at most one enrichment is in flight; and an arriving asset is
  started at once only when none is in flight (otherwise it is buffered until the one in
  flight has settled).
\<close>

theorem one_enrichment_in_flight:
  assumes "reachable enrichmentConcurrency s"
  shows "length (active s) \<le> 1
       \<and> (\<forall>v. active (outerNext enrichmentConcurrency v s) \<noteq> active s \<longrightarrow> active s = [])"
proof
  show b: "length (active s) \<le> 1"
    using reachable_bound[OF assms] by (simp add: enrichmentConcurrency_def)
  show "\<forall>v. active (outerNext enrichmentConcurrency v s) \<noteq> active s \<longrightarrow> active s = []"
    by (auto simp: outerNext_def enrichmentConcurrency_def doInnerSub_def split: if_splits)
qed

theorem one_enrichment_in_flight_witness:
  "reachable enrichmentConcurrency \<lparr>active = [testAsset ''7''], buffer = [testAsset ''8''], closed = False\<rparr>
   \<and> length (active \<lparr>active = [testAsset ''7''], buffer = [testAsset ''8''], closed = False\<rparr>) \<le> 1"
proof -
  let ?s0 = "\<lparr>active = [], buffer = [], closed = False\<rparr> :: CollectionAsset mergeMapState"
  have 1: "reachable enrichmentConcurrency (outerNext enrichmentConcurrency (testAsset ''7'') ?s0)"
    by (rule reachable.pushed[OF reachable.subscribed])
  have 2: "reachable enrichmentConcurrency
      (outerNext enrichmentConcurrency (testAsset ''8'') (outerNext enrichmentConcurrency (testAsset ''7'') ?s0))"
    by (rule reachable.pushed[OF 1])
  have e: "outerNext enrichmentConcurrency (testAsset ''8'') (outerNext enrichmentConcurrency (testAsset ''7'') ?s0)
        = \<lparr>active = [testAsset ''7''], buffer = [testAsset ''8''], closed = False\<rparr>"
    by (simp add: outerNext_def doInnerSub_def enrichmentConcurrency_def)
  have r: "reachable enrichmentConcurrency \<lparr>active = [testAsset ''7''], buffer = [testAsset ''8''], closed = False\<rparr>"
    using 2 unfolding e .
  from one_enrichment_in_flight[OF r] r show ?thesis by blast
qed

section \<open>Properties of the normalisation\<close>

text \<open>
  C8, as the code has it. Whether or not the record has a provenance timestamp, the rewrite
  succeeds. A record without attribute list stays without one. For a record that carries an
  attribute list: without a timestamp, the attributes are the old ones followed by exactly
  one Type attribute when classification is on (Classic for a name that contains
  \<open>Hunny #\<close>, Named otherwise) and nothing else, and the description is untouched. With
  one that parses as a date, the Type attribute is followed by the Original Mint Date
  attribute holding the locale-formatted date when mint-date injection is on, and the fixed
  sentence with that date is appended to the description.
\<close>

theorem rewriteRecord_derives_attributes:
  "rewriteRecord env opts i None metadata =
           Inr (metadata\<lparr>attributes :=
                           map_option (\<lambda>as. as @ (if hunnys opts then [typeAttribute metadata] else []))
                             (attributes metadata),
                         md_id := Some (decimal (i + 1)),
                         original_creation_date := None\<rparr>)
       \<and> (\<forall>ev t. Date_parse env (created_date ev) = Some t \<and> toLocaleDateString env t \<noteq> [] \<longrightarrow>
            rewriteRecord env opts i (Some ev) metadata =
              Inr (metadata\<lparr>attributes :=
                               map_option (\<lambda>as. as @ (if hunnys opts then [typeAttribute metadata] else [])
                                        @ (if mintAttribute opts
                                           then [mintDateAttribute (toLocaleDateString env t)] else []))
                                 (attributes metadata),
                            md_id := Some (decimal (i + 1)),
                            original_creation_date := Some (toISOString env t),
                            md_description := md_description metadata
                               @ provenanceSentence (toLocaleDateString env t)\<rparr>))"
proof (cases "attributes metadata")
  case None
  then have "metadata\<lparr>attributes := None\<rparr> = metadata" by simp
  then show ?thesis using None
    by (auto simp: rewriteRecord_def push_def typeAttribute_def mintDateAttribute_def truthy_def
      localeDate_def isoDate_def Let_def)
next
  case (Some as)
  then show ?thesis
    by (auto simp: rewriteRecord_def push_def typeAttribute_def mintDateAttribute_def truthy_def
      localeDate_def isoDate_def Let_def)
qed

lemma decimal_1: "decimal (0 + 1) = ''1''" "decimal (Suc 0) = ''1''"
  by code_simp+

theorem rewriteRecord_derives_attributes_witness:
  "rewriteRecord testNormEnv testOptions 0 None classicRecord =
     Inr (classicRecord\<lparr>attributes := Some [\<lparr>trait_type = ''Type'', attr_value = ''Classic''\<rparr>],
                         md_id := Some ''1'', original_creation_date := None\<rparr>)
   \<and> rewriteRecord testNormEnv testOptions 0 (Some (mintEvent ''2022-01-05T10:00:00'')) classicRecord =
     Inr (classicRecord\<lparr>attributes := Some [\<lparr>trait_type = ''Type'', attr_value = ''Classic''\<rparr>,
                                              \<lparr>trait_type = ''Original Mint Date'',
                                                 attr_value = ''January 5, 2022''\<rparr>],
                         md_id := Some ''1'',
                         original_creation_date := Some ''2022-01-05T10:00:00.000Z'',
                         md_description := ''A bunny'' @ provenanceSentence ''January 5, 2022''\<rparr>)"
proof -
  have a: "attributes classicRecord = Some []"
    by (simp add: classicRecord_def testRecord_def)
  have d: "Date_parse testNormEnv (created_date (mintEvent ''2022-01-05T10:00:00'')) = Some 1641376800000
           \<and> toLocaleDateString testNormEnv 1641376800000 \<noteq> []"
    by (simp add: testNormEnv_def mintEvent_def)
  have t: "typeAttribute classicRecord = \<lparr>trait_type = ''Type'', attr_value = ''Classic''\<rparr>"
    by (simp add: typeAttribute_def classicRecord_def testRecord_def)
  have f: "hunnys testOptions" "mintAttribute testOptions" "md_description classicRecord = ''A bunny''"
    "toLocaleDateString testNormEnv 1641376800000 = ''January 5, 2022''"
    "toISOString testNormEnv 1641376800000 = ''2022-01-05T10:00:00.000Z''"
    by (simp_all add: testOptions_def classicRecord_def testRecord_def testNormEnv_def)
  note th = rewriteRecord_derives_attributes[of testNormEnv testOptions 0 classicRecord]
  have 1: "rewriteRecord testNormEnv testOptions 0 None classicRecord =
     Inr (classicRecord\<lparr>attributes := Some [\<lparr>trait_type = ''Type'', attr_value = ''Classic''\<rparr>],
                         md_id := Some ''1'', original_creation_date := None\<rparr>)"
    using th[THEN conjunct1]
    by (simp add: a t f decimal_1)
  have 2: "rewriteRecord testNormEnv testOptions 0 (Some (mintEvent ''2022-01-05T10:00:00'')) classicRecord =
     Inr (classicRecord\<lparr>attributes := Some [\<lparr>trait_type = ''Type'', attr_value = ''Classic''\<rparr>,
                                              \<lparr>trait_type = ''Original Mint Date'',
                                                 attr_value = ''January 5, 2022''\<rparr>],
                         md_id := Some ''1'',
                         original_creation_date := Some ''2022-01-05T10:00:00.000Z'',
                         md_description := ''A bunny'' @ provenanceSentence ''January 5, 2022''\<rparr>)"
    using th[THEN conjunct2, rule_format, OF d]
    by (simp add: a t f decimal_1 mintDateAttribute_def)
  show ?thesis using 1 2 by blast
qed

text \<open>
  C8 as stated fails on a record without attribute list: \<open>attributes?.push\<close> appends
  nothing, so classification adds no Type attribute.
\<close>

theorem rewriteRecord_no_attribute_list_counterexample:
  "hunnys testOptions
   \<and> rewriteRecord testNormEnv testOptions 0 None bareRecord = Inr (bareRecord\<lparr>md_id := Some ''1''\<rparr>)
   \<and> attributes (bareRecord\<lparr>md_id := Some ''1''\<rparr>) = None"
  by (simp add: rewriteRecord_def push_def bareRecord_def classicRecord_def testRecord_def
      testOptions_def truthy_def decimal_1 Let_def)

lemma compareFileNames_numbered:
  assumes "numbered names" "a \<in> set names" "b \<in> set names"
  shows "compareFileNames a b = Inr (fileNumber a - fileNumber b)"
proof -
  obtain x where x: "BigNumber_from (basename a ''.json'') = Inr x"
    using assms(1,2) unfolding numbered_def by blast
  obtain y where y: "BigNumber_from (basename b ''.json'') = Inr y"
    using assms(1,3) unfolding numbered_def by blast
  have "\<bar>fileNumber a - fileNumber b\<bar> < 2 ^ 53"
    using assms unfolding numbered_def by blast
  then have "\<bar>x - y\<bar> < 2 ^ 53" using x y by (simp add: fileNumber_def)
  then show ?thesis using x y by (simp add: compareFileNames_def fileNumber_def toNumber_def)
qed

lemma insertBy_consistent:
  fixes key :: "'a \<Rightarrow> int"
  assumes "\<And>y. y \<in> set ys \<Longrightarrow> compare x y = Inr (key x - key y)"
    and "sorted (map key ys)"
  shows "\<exists>zs. insertBy compare x ys = Inr zs \<and> sorted (map key zs) \<and> mset zs = mset ys + {#x#}
         \<and> (\<forall>k. filter (\<lambda>y. key y = k) zs = filter (\<lambda>y. key y = k) ys @ filter (\<lambda>y. key y = k) [x])"
  using assms
proof (induction ys)
  case Nil
  then show ?case by simp
next
  case (Cons y ys)
  have c: "compare x y = Inr (key x - key y)" using Cons.prems(1) by simp
  show ?case
  proof (cases "key x < key y")
    case True
    have gt: "\<forall>z\<in>set (y # ys). key x < key z"
      using Cons.prems(2) True by auto
    have st: "\<And>k. filter (\<lambda>z. key z = k) (x # y # ys)
          = filter (\<lambda>z. key z = k) (y # ys) @ filter (\<lambda>z. key z = k) [x]"
    proof -
      fix k
      show "filter (\<lambda>z. key z = k) (x # y # ys)
          = filter (\<lambda>z. key z = k) (y # ys) @ filter (\<lambda>z. key z = k) [x]"
      proof (cases "key x = k")
        case False then show ?thesis by simp
      next
        case kx: True
        have "\<forall>z\<in>set (y # ys). key z \<noteq> k"
          using gt kx by fastforce
        then have "filter (\<lambda>z. key z = k) (y # ys) = []"
          by (simp only: filter_empty_conv)
        then show ?thesis using kx by simp
      qed
    qed
    have "insertBy compare x (y # ys) = Inr (x # y # ys)" using c True by simp
    moreover have "sorted (map key (x # y # ys))" using Cons.prems(2) gt by (fastforce simp: less_imp_le)
    ultimately show ?thesis using st True by auto
  next
    case False
    from Cons.IH obtain zs where zs: "insertBy compare x ys = Inr zs" "sorted (map key zs)"
      "mset zs = mset ys + {#x#}"
      "\<forall>k. filter (\<lambda>y. key y = k) zs = filter (\<lambda>y. key y = k) ys @ filter (\<lambda>y. key y = k) [x]"
      using Cons.prems by auto
    have i: "insertBy compare x (y # ys) = Inr (y # zs)" using c False zs(1) by simp
    have "mset zs = mset (x # ys)" using zs(3) by simp
    then have "set zs = set (x # ys)" by (rule mset_eq_setD)
    then have s: "sorted (map key (y # zs))" using zs(2) Cons.prems(2) False by auto
    have m: "mset (y # zs) = mset (y # ys) + {#x#}" using zs(3) by simp
    have st: "\<forall>k. filter (\<lambda>z. key z = k) (y # zs)
          = filter (\<lambda>z. key z = k) (y # ys) @ filter (\<lambda>z. key z = k) [x]"
      using zs(4) by simp
    show ?thesis using i s m st
      by (intro exI[of _ "y # zs"]) (auto simp: False)
  qed
qed

lemma sortInto_consistent:
  fixes key :: "'a \<Rightarrow> int"
  assumes "\<And>x y. x \<in> set sorted_part \<union> set xs \<Longrightarrow> y \<in> set sorted_part \<union> set xs \<Longrightarrow>
             compare x y = Inr (key x - key y)"
    and "sorted (map key sorted_part)"
  shows "\<exists>zs. sortInto compare sorted_part xs = Inr zs \<and> sorted (map key zs)
         \<and> mset zs = mset sorted_part + mset xs
         \<and> (\<forall>k. filter (\<lambda>y. key y = k) zs
                  = filter (\<lambda>y. key y = k) sorted_part @ filter (\<lambda>y. key y = k) xs)"
  using assms
proof (induction xs arbitrary: sorted_part)
  case Nil
  then show ?case by simp
next
  case (Cons x xs)
  have "\<And>y. y \<in> set sorted_part \<Longrightarrow> compare x y = Inr (key x - key y)"
    using Cons.prems(1) by simp
  from insertBy_consistent[of sorted_part compare x key, OF this Cons.prems(2)]
  obtain ds where ds: "insertBy compare x sorted_part = Inr ds" "sorted (map key ds)"
    "mset ds = mset sorted_part + {#x#}"
    "\<forall>k. filter (\<lambda>y. key y = k) ds
        = filter (\<lambda>y. key y = k) sorted_part @ filter (\<lambda>y. key y = k) [x]"
    by blast
  have "mset ds = mset (x # sorted_part)" using ds(3) by simp
  then have sd: "set ds = set (x # sorted_part)" by (rule mset_eq_setD)
  have "\<And>a b. a \<in> set ds \<union> set xs \<Longrightarrow> b \<in> set ds \<union> set xs \<Longrightarrow>
             compare a b = Inr (key a - key b)"
    using Cons.prems(1) sd by auto
  from Cons.IH[of ds, OF this ds(2)]
  obtain zs where zs: "sortInto compare ds xs = Inr zs" "sorted (map key zs)"
    "mset zs = mset ds + mset xs"
    "\<forall>k. filter (\<lambda>y. key y = k) zs = filter (\<lambda>y. key y = k) ds @ filter (\<lambda>y. key y = k) xs"
    by blast
  have 1: "sortInto compare sorted_part (x # xs) = Inr zs" using ds(1) zs(1) by simp
  have 2: "mset zs = mset sorted_part + mset (x # xs)" using zs(3) ds(3) by simp
  have 3: "\<forall>k. filter (\<lambda>y. key y = k) zs
      = filter (\<lambda>y. key y = k) sorted_part @ filter (\<lambda>y. key y = k) (x # xs)"
    using zs(4) ds(4) by simp
  show ?case using 1 zs(2) 2 3 by blast
qed

lemma sortBy_consistent:
  fixes key :: "'a \<Rightarrow> int"
  assumes "\<And>x y. x \<in> set xs \<Longrightarrow> y \<in> set xs \<Longrightarrow> compare x y = Inr (key x - key y)"
  shows "sortBy compare xs = Inr (sort_key key xs)"
proof -
  from sortInto_consistent[of "[]" xs compare key] assms
  obtain zs where zs: "sortInto compare [] xs = Inr zs" "sorted (map key zs)" "mset zs = mset xs"
    "\<forall>k. filter (\<lambda>y. key y = k) zs = filter (\<lambda>y. key y = k) xs"
    by auto
  have "\<And>k. k \<in> set zs \<Longrightarrow> filter (\<lambda>x. key k = key x) zs = filter (\<lambda>x. key k = key x) xs"
  proof -
    fix k
    have "(\<lambda>x. key k = key x) = (\<lambda>x. key x = key k)" by auto
    then show "filter (\<lambda>x. key k = key x) zs = filter (\<lambda>x. key k = key x) xs"
      using zs(4) by simp
  qed
  from properties_for_sort_key[OF zs(3) this zs(2)]
  show ?thesis using zs(1) by (simp add: sortBy_def)
qed

lemma sortBy_fileNames:
  assumes "numbered names"
  shows "sortBy compareFileNames names = Inr (sort_key fileNumber names)"
  by (rule sortBy_consistent) (rule compareFileNames_numbered[OF assms])

lemma digits_val_snoc: "digits_val (xs @ [c]) = 10 * digits_val xs + digit_val c"
  by (simp add: digits_val_def)

lemma digit_val_char: "d < 10 \<Longrightarrow> digit_val (char_of (48 + d)) = d"
  by (simp add: digit_val_def)

lemma digits_val_decimal: "digits_val (decimal n) = n"
proof (induction n rule: decimal.induct)
  case (1 n)
  show ?case
  proof (cases "n < 10")
    case True
    then show ?thesis
      using digit_val_char[of n] by (subst decimal.simps) (simp add: digits_val_def)
  next
    case False
    have "digits_val (decimal n) = 10 * digits_val (decimal (n div 10)) + digit_val (char_of (48 + n mod 10))"
      using False by (subst decimal.simps) (simp add: digits_val_snoc)
    also have "\<dots> = 10 * (n div 10) + n mod 10"
      using "1.IH"[OF False] digit_val_char[of "n mod 10"] by simp
    finally show ?thesis by simp
  qed
qed

lemma decimal_inj: "decimal a = decimal b \<Longrightarrow> a = b"
  by (metis digits_val_decimal)

lemma jsonOut_inj: "jsonOut opts a = jsonOut opts b \<Longrightarrow> a = b"
proof -
  assume "jsonOut opts a = jsonOut opts b"
  then have "decimal (a + 1) @ ''.json'' = decimal (b + 1) @ ''.json''"
    unfolding jsonOut_def by (simp only: same_append_eq)
  then have "decimal (a + 1) = decimal (b + 1)" by (simp only: append_same_eq)
  then show ?thesis using decimal_inj by fastforce
qed

lemma jsonOut_not_asset: "jsonOut opts k \<noteq> outDir opts @ ''/assets/'' @ x"
  unfolding jsonOut_def by simp

lemma fetchMore_files: "fetchMore env k t c w = (r, w') \<Longrightarrow> files w' = files w"
  by (auto simp: fetchMore_def Let_def split: option.splits)

lemma gifNext_files:
  fixes w :: "'z world_scheme"
  assumes run: "gifNext env k t g w = Some y"
  shows "files (snd (snd y)) = files w"
proof (rule gifNext.raw_induct[
        where P = "\<lambda>env k t g (w :: 'z world_scheme) y. files (snd (snd y)) = files w", OF _ run])
  fix gn env k t g and w :: "'z world_scheme" and y
  assume IH: "\<And>a b c d (e :: 'z world_scheme) y. gn a b c d e = Some y \<Longrightarrow> files (snd (snd y)) = files e"
    and eq: "(case g of
      NotStarted \<Rightarrow>
        (case fetchMore env k t 0 w of
           (Inl e, w') \<Rightarrow> Some (Inl e, Finished, w')
         | (Inr (gifs, total_count), w') \<Rightarrow> gn env k t (InPage 0 gifs total_count) w')
      | InPage offset [] total_count \<Rightarrow>
          if total_count \<le> offset + LIMIT then Some (Inr None, Finished, w)
          else (case fetchMore env k t (offset + LIMIT) w of
               (Inl e, w') \<Rightarrow> Some (Inl e, Finished, w')
               | (Inr (gifs, total_count'), w') \<Rightarrow>
                   gn env k t (InPage (offset + LIMIT) gifs total_count') w')
      | InPage offset (u # us) total_count \<Rightarrow>
          if isGif u then Some (Inr (Some u), InPage offset us total_count, w)
          else gn env k t (InPage offset us total_count) w
      | Finished \<Rightarrow> Some (Inr None, Finished, w)) = Some y"
  show "files (snd (snd y)) = files w"
  proof (cases g)
    case NotStarted
    obtain r1 w1 where f: "fetchMore env k t 0 w = (r1, w1)" by (cases "fetchMore env k t 0 w")
    have f1: "files w1 = files w" by (rule fetchMore_files[OF f])
    show ?thesis
    proof (cases r1)
      case (Inl e)
      then show ?thesis using eq NotStarted f f1 by auto
    next
      case (Inr res)
      obtain gifs total where res: "res = (gifs, total)" by (cases res)
      have "gn env k t (InPage 0 gifs total) w1 = Some y"
        using eq NotStarted f Inr res by simp
      from IH[OF this] show ?thesis using f1 by simp
    qed
  next
    case (InPage offset us total)
    show ?thesis
    proof (cases us)
      case Nil
      show ?thesis
      proof (cases "total \<le> offset + LIMIT")
        case True
        then show ?thesis using eq InPage Nil by auto
      next
        case False
        obtain r1 w1 where f: "fetchMore env k t (offset + LIMIT) w = (r1, w1)"
          by (cases "fetchMore env k t (offset + LIMIT) w")
        have f1: "files w1 = files w" by (rule fetchMore_files[OF f])
        show ?thesis
        proof (cases r1)
          case (Inl e)
          then show ?thesis using eq InPage Nil False f f1 by auto
        next
          case (Inr res)
          obtain gifs total' where res: "res = (gifs, total')" by (cases res)
          have "gn env k t (InPage (offset + LIMIT) gifs total') w1 = Some y"
            using eq InPage Nil False f Inr res by simp
          from IH[OF this] show ?thesis using f1 by simp
        qed
      qed
    next
      case (Cons u rest)
      show ?thesis
      proof (cases "isGif u")
        case True
        then show ?thesis using eq InPage Cons by auto
      next
        case False
        then have "gn env k t (InPage offset rest total) w = Some y"
          using eq InPage Cons by simp
        from IH[OF this] show ?thesis .
      qed
    qed
  next
    case Finished
    then show ?thesis using eq by auto
  qed
qed

lemma fetch_files: "fetch api r w = (res, w') \<Longrightarrow> files w' = files w"
  by (auto simp: fetch_def Let_def split: option.splits)

lemma downloadGif_files: "downloadGif env u w = (r, w') \<Longrightarrow> files w' = files w"
proof -
  assume a: "downloadGif env u w = (r, w')"
  obtain r1 w1 where b: "retryWithBackoff (fetch (gif_host env) (GetGif u)) 5 250 w = (r1, w1)"
    by (cases "retryWithBackoff (fetch (gif_host env) (GetGif u)) 5 250 w")
  have "files w1 = files w" by (rule retry_files[OF fetch_files b])
  then show ?thesis using a b by (auto simp: downloadGif_def split: sum.splits option.splits)
qed

lemma substituteMedia_frame:
  assumes "substituteMedia env opts key i g metadata w = Some (r, g', w')"
  shows "files w' (jsonOut opts k) = files w (jsonOut opts k)"
    and "\<And>m. r = Inr m \<Longrightarrow> md_name m = md_name metadata \<and> events m = events metadata
                          \<and> owners m = owners metadata"
proof -
  let ?name = "decimal (i + 1) @ ''.gif''"
  let ?searchTerm = "if truthy (giphySearchTerm opts) then the (giphySearchTerm opts) else ''ape''"
  show "files w' (jsonOut opts k) = files w (jsonOut opts k)"
  proof (cases "exists w (outDir opts @ ''/'' @ ?name)")
    case True
    then show ?thesis using assms by (simp add: substituteMedia_def Let_def)
  next
    case False
    then obtain r1 g1 w1 where n: "gifNext env key ?searchTerm g w = Some (r1, g1, w1)"
      using assms by (cases "gifNext env key ?searchTerm g w") (auto simp: substituteMedia_def Let_def)
    have f1: "files w1 = files w" using gifNext_files[OF n] by simp
    show ?thesis
    proof (cases r1)
      case (Inl e)
      then show ?thesis using assms False n f1 by (auto simp: substituteMedia_def Let_def)
    next
      case (Inr uo)
      show ?thesis
      proof (cases uo)
        case None
        then show ?thesis using assms False n f1 Inr by (auto simp: substituteMedia_def Let_def)
      next
        case (Some u)
        obtain r2 w2 where d: "downloadGif env u w1 = (r2, w2)" by (cases "downloadGif env u w1")
        have f2: "files w2 = files w1" by (rule downloadGif_files[OF d])
        show ?thesis using assms False n f1 Inr Some d f2 jsonOut_not_asset[of opts k ?name]
          by (cases r2) (auto simp: substituteMedia_def Let_def)
      qed
    qed
  qed
  fix m assume "r = Inr m"
  then show "md_name m = md_name metadata \<and> events m = events metadata \<and> owners m = owners metadata"
    using assms
    by (auto simp: substituteMedia_def Let_def split: if_splits option.splits sum.splits prod.splits)
qed

lemma copyImage_frame:
  assumes "copyImage opts i metadata w = (r, w')"
  shows "files w' (jsonOut opts k) = files w (jsonOut opts k)"
    and "\<And>m. r = Inr m \<Longrightarrow> md_name m = md_name metadata \<and> events m = events metadata
                          \<and> owners m = owners metadata"
  using assms jsonOut_not_asset[of opts k "decimal (i + 1) @ extname (image metadata)"]
  by (auto simp: copyImage_def Let_def split: option.splits)

lemma rewriteRecord_keeps:
  assumes "rewriteRecord env opts i oldestEvent metadata = Inr m'"
  shows "md_id m' = Some (decimal (i + 1)) \<and> md_name m' = md_name metadata
         \<and> events m' = events metadata \<and> owners m' = owners metadata"
  using assms
  by (auto simp: rewriteRecord_def push_def Let_def split: sum.splits option.splits if_splits)

lemma resolveMedia_frame:
  assumes "resolveMedia env opts i gi metadata w = Some (r, gi', w')"
  shows "files w' (jsonOut opts k) = files w (jsonOut opts k)"
    and "\<And>m. r = Inr m \<Longrightarrow> md_name m = md_name metadata \<and> events m = events metadata
                          \<and> owners m = owners metadata"
proof -
  show "files w' (jsonOut opts k) = files w (jsonOut opts k)"
  proof (cases gi)
    case None
    then have "copyImage opts i metadata w = (r, w')"
      using assms by (auto simp: resolveMedia_def split: prod.splits)
    from copyImage_frame(1)[OF this] show ?thesis .
  next
    case (Some g)
    then obtain g' where "substituteMedia env opts (the (giphyApiKey opts)) i g metadata w = Some (r, g', w')"
      using assms by (auto simp: resolveMedia_def split: option.splits prod.splits)
    from substituteMedia_frame(1)[OF this] show ?thesis .
  qed
  fix m assume r: "r = Inr m"
  show "md_name m = md_name metadata \<and> events m = events metadata \<and> owners m = owners metadata"
  proof (cases gi)
    case None
    then have "copyImage opts i metadata w = (r, w')"
      using assms by (auto simp: resolveMedia_def split: prod.splits)
    from copyImage_frame(2)[OF this r] show ?thesis .
  next
    case (Some g)
    then obtain g' where "substituteMedia env opts (the (giphyApiKey opts)) i g metadata w = Some (r, g', w')"
      using assms by (auto simp: resolveMedia_def split: option.splits prod.splits)
    from substituteMedia_frame(2)[OF this r] show ?thesis .
  qed
qed

lemma prepareLoop_frame:
  "prepareLoop env opts j gi recs w = Some (r, w') \<Longrightarrow> k < j \<Longrightarrow>
     files w' (jsonOut opts k) = files w (jsonOut opts k)"
proof (induction recs arbitrary: j gi w)
  case Nil
  then show ?case by simp
next
  case (Cons metadata rest)
  show ?case
  proof (cases "oldestEventOf metadata")
    case (Inl e)
    then show ?thesis using Cons.prems by simp
  next
    case (Inr oldest)
    obtain r1 gi1 w1 where m: "resolveMedia env opts j gi metadata w = Some (r1, gi1, w1)"
      using Cons.prems(1) Inr by (cases "resolveMedia env opts j gi metadata w") auto
    have f1: "files w1 (jsonOut opts k) = files w (jsonOut opts k)"
      by (rule resolveMedia_frame(1)[OF m])
    show ?thesis
    proof (cases r1)
      case (Inl e)
      then show ?thesis using Cons.prems(1) Inr m f1 by simp
    next
      case r1: (Inr m1)
      show ?thesis
      proof (cases "rewriteRecord env opts j oldest m1")
        case (Inl e)
        then show ?thesis using Cons.prems(1) Inr m r1 f1 by simp
      next
        case rr: (Inr m')
        let ?w2 = "w1\<lparr>files := (files w1)(outDir opts @ ''/metadata/'' @ decimal (j + 1) @ ''.json''
                                               \<mapsto> JsonFile m')\<rparr>"
        have run: "prepareLoop env opts (j + 1) gi1 rest ?w2 = Some (r, w')"
          using Cons.prems(1) Inr m r1 rr by simp
        have "k < j + 1" using Cons.prems(2) by simp
        from Cons.IH[OF run this]
        have "files w' (jsonOut opts k) = files ?w2 (jsonOut opts k)" .
        moreover have "jsonOut opts k \<noteq> jsonOut opts j"
          using jsonOut_inj[of opts k j] Cons.prems(2) by auto
        ultimately show ?thesis using f1 by (simp add: jsonOut_def)
      qed
    qed
  qed
qed

lemma prepareLoop_numbers:
  "prepareLoop env opts i gi recs w = Some (Inr (), w') \<Longrightarrow> k < length recs \<Longrightarrow>
     \<exists>m'. files w' (jsonOut opts (i + k)) = Some (JsonFile m')
        \<and> md_id m' = Some (decimal (i + k + 1))
        \<and> md_name m' = md_name (recs ! k)
        \<and> events m' = events (recs ! k)
        \<and> owners m' = owners (recs ! k)"
proof (induction recs arbitrary: i gi w k)
  case Nil
  then show ?case by simp
next
  case (Cons metadata rest)
  obtain oldest where o: "oldestEventOf metadata = Inr oldest"
    using Cons.prems(1) by (cases "oldestEventOf metadata") auto
  obtain r1 gi1 w1 where m: "resolveMedia env opts i gi metadata w = Some (r1, gi1, w1)"
    using Cons.prems(1) o by (cases "resolveMedia env opts i gi metadata w") auto
  obtain m1 where r1: "r1 = Inr m1" using Cons.prems(1) o m by (cases r1) auto
  obtain m' where rr: "rewriteRecord env opts i oldest m1 = Inr m'"
    using Cons.prems(1) o m r1 by (cases "rewriteRecord env opts i oldest m1") auto
  let ?w2 = "w1\<lparr>files := (files w1)(outDir opts @ ''/metadata/'' @ decimal (i + 1) @ ''.json''
                                               \<mapsto> JsonFile m')\<rparr>"
  have run: "prepareLoop env opts (i + 1) gi1 rest ?w2 = Some (Inr (), w')"
    using Cons.prems(1) o m r1 rr by simp
  show ?case
  proof (cases k)
    case 0
    have "files w' (jsonOut opts i) = files ?w2 (jsonOut opts i)"
      by (rule prepareLoop_frame[OF run]) simp
    then have "files w' (jsonOut opts i) = Some (JsonFile m')" by (simp add: jsonOut_def)
    moreover note rewriteRecord_keeps[OF rr] resolveMedia_frame(2)[OF m r1]
    ultimately show ?thesis using 0 by simp
  next
    case (Suc k')
    then have "k' < length rest" using Cons.prems(2) by simp
    from Cons.IH[OF run this] show ?thesis using Suc by simp
  qed
qed

lemma readAll_length: "readAll opts names w = Inr recs \<Longrightarrow> length recs = length names"
  by (induction names arbitrary: recs) (auto split: option.splits stored.splits sum.splits)

text \<open>
  C5, as the code has it. When the \<open>.json\<close> files of the input directory are named after
  numbers (no two of them \<open>2 ^ 53\<close> or more apart, so that no comparison overflows) and the
  pass succeeds,
  the records are taken in ascending order of the number in their file name, files with the
  same number in the order of the directory listing, and the \<open>k\<close>-th of them (from 0) is
  written to \<open>metadata/<k+1>.json\<close> with the identifier \<open>k+1\<close>, under its own name, events
  and owners. The provenance timestamps play no part in the order.
\<close>

theorem prepareMetadata_numbers_by_file_name:
  assumes "numbered (jsonEntries dirEntries)"
    and "prepareMetadata env opts dirEntries w = Some (Inr (), w')"
  shows "\<exists>records.
           readAll opts (sort_key fileNumber (jsonEntries dirEntries)) w = Inr records
         \<and> length records = length (jsonEntries dirEntries)
         \<and> (\<forall>k < length records.
              \<exists>m'. files w' (jsonOut opts k) = Some (JsonFile m')
                 \<and> md_id m' = Some (decimal (k + 1))
                 \<and> md_name m' = md_name (records ! k)
                 \<and> events m' = events (records ! k)
                 \<and> owners m' = owners (records ! k))"
proof -
  have s: "sortBy compareFileNames (jsonEntries dirEntries) = Inr (sort_key fileNumber (jsonEntries dirEntries))"
    by (rule sortBy_fileNames[OF assms(1)])
  obtain records where r: "readAll opts (sort_key fileNumber (jsonEntries dirEntries)) w = Inr records"
    using assms(2) s
    by (cases "readAll opts (sort_key fileNumber (jsonEntries dirEntries)) w")
       (auto simp: prepareMetadata_def jsonEntries_def Let_def)
  have l: "length records = length (jsonEntries dirEntries)"
    using readAll_length[OF r] by simp
  have run: "prepareLoop env opts 0
               (if testImages opts \<and> truthy (giphyApiKey opts) then Some NotStarted else None)
               records w = Some (Inr (), w')"
    using assms(2) s r by (simp add: prepareMetadata_def jsonEntries_def Let_def)
  have "\<forall>k < length records.
              \<exists>m'. files w' (jsonOut opts k) = Some (JsonFile m')
                 \<and> md_id m' = Some (decimal (k + 1))
                 \<and> md_name m' = md_name (records ! k)
                 \<and> events m' = events (records ! k)
                 \<and> owners m' = owners (records ! k)"
  proof (intro allI impI)
    fix k assume "k < length records"
    from prepareLoop_numbers[OF run this]
    show "\<exists>m'. files w' (jsonOut opts k) = Some (JsonFile m')
                 \<and> md_id m' = Some (decimal (k + 1))
                 \<and> md_name m' = md_name (records ! k)
                 \<and> events m' = events (records ! k)
                 \<and> owners m' = owners (records ! k)"
      by simp
  qed
  with r l show ?thesis by blast
qed

lemma decimal_small: "decimal 1 = ''1''" "decimal 2 = ''2''" "decimal (Suc (Suc 0)) = ''2''"
  by code_simp+

lemmas norm_defs = prepareMetadata_def sortBy_def compareFileNames_def BigNumber_from_def basename_def
  is_digit_def digits_val_def digit_val_def toNumber_def endsWith_def oldestEventOf_def
  reduce_def oldestOwnerReducer_def resolveMedia_def copyImage_def resolveIn_def extname_def
  lastComponent_def rewriteRecord_def push_def localeDate_def isoDate_def truthy_def Let_def
  testNormEnv_def testOptions_def testRecord_def mintEvent_def decimal_1 decimal_small

lemma corpus_names:
  "endsWith ''2.json'' ''.json''" "endsWith ''1.json'' ''.json''"
  "\<not> endsWith ''1.png'' ''.json''" "\<not> endsWith ''2.png'' ''.json''"
  by (simp_all add: endsWith_def suffix_Cons)

lemma corpus_json: "jsonEntries corpusEntries = [''2.json'', ''1.json'']"
  by (simp add: jsonEntries_def corpusEntries_def corpus_names)

lemma corpus_sorted:
  "sortBy compareFileNames [''2.json'', ''1.json''] = Inr [''1.json'', ''2.json'']"
  by (simp add: norm_defs suffix_Cons)

lemma corpus_read:
  "readAll testOptions [''1.json'', ''2.json''] corpusWorld = Inr [laterRecord, earlierRecord]"
  by (simp add: corpusWorld_def testOptions_def)

lemma corpus_loop:
  "prepareLoop testNormEnv testOptions 0 None [laterRecord, earlierRecord] corpusWorld
     = Some (Inr (), normalizedWorld)"
  by (simp add: norm_defs laterRecord_def earlierRecord_def corpusWorld_def normalizedWorld_def
      laterOut_def earlierOut_def)

lemma corpus_run:
  "prepareMetadata testNormEnv testOptions corpusEntries corpusWorld = Some (Inr (), normalizedWorld)"
  using corpus_json corpus_sorted corpus_read corpus_loop
  by (simp add: prepareMetadata_def jsonEntries_def testOptions_def)

text \<open>
  C5 as stated fails: of these two records the one in \<open>1.json\<close> has the later provenance
  timestamp, and it receives the identifier 1.
\<close>

theorem prepareMetadata_later_record_first_counterexample:
  "prepareMetadata testNormEnv testOptions corpusEntries corpusWorld = Some (Inr (), normalizedWorld)
   \<and> oldestEventOf laterRecord = Inr (Some (mintEvent ''2022-01-05T10:00:00''))
   \<and> oldestEventOf earlierRecord = Inr (Some (mintEvent ''2021-03-01T09:30:00''))
   \<and> str_lt ''2021-03-01T09:30:00'' ''2022-01-05T10:00:00''
   \<and> files normalizedWorld ''out/metadata/1.json'' = Some (JsonFile laterOut)
   \<and> md_id laterOut = Some ''1''
   \<and> md_name laterOut = md_name laterRecord"
  using corpus_run
  by (simp add: oldestEventOf_def reduce_def laterRecord_def earlierRecord_def testRecord_def
      normalizedWorld_def laterOut_def)

lemma corpus_numbered: "numbered (jsonEntries corpusEntries)"
  by (simp add: corpus_json numbered_def fileNumber_def norm_defs suffix_Cons)

theorem prepareMetadata_numbers_by_file_name_witness:
  "\<exists>records.
      readAll testOptions (sort_key fileNumber (jsonEntries corpusEntries)) corpusWorld = Inr records
    \<and> length records = length (jsonEntries corpusEntries)
    \<and> (\<forall>k < length records.
         \<exists>m'. files normalizedWorld (jsonOut testOptions k) = Some (JsonFile m')
            \<and> md_id m' = Some (decimal (k + 1))
            \<and> md_name m' = md_name (records ! k)
            \<and> events m' = events (records ! k)
            \<and> owners m' = owners (records ! k))"
  by (rule prepareMetadata_numbers_by_file_name[OF corpus_numbered corpus_run])

lemma prepareLoop_empty_events:
  "events metadata = Some [] \<Longrightarrow>
     prepareLoop env opts i gifIterator (metadata # rest) w = Some (Inl TypeError, w)"
  by (simp add: oldestEventOf_def reduce_def)

text \<open>
  C4 fails on the code: a record whose \<open>events\<close> is the empty array, as the harvest
  writes it for an asset without events, makes \<open>reduce\<close> throw, and the pass ends with a
  \<open>TypeError\<close> before anything is written.
\<close>

theorem prepareMetadata_empty_events_throws:
  "events eventlessRecord = Some [] \<and> owners eventlessRecord = Some []
   \<and> prepareMetadata testNormEnv testOptions [''1.json'', ''1.png''] eventlessWorld
       = Some (Inl TypeError, eventlessWorld)"
proof -
  have s: "sortBy compareFileNames [''1.json''] = Inr [''1.json'']"
    by (simp add: sortBy_def)
  have r: "readAll testOptions [''1.json''] eventlessWorld = Inr [eventlessRecord]"
    by (simp add: eventlessWorld_def testOptions_def)
  have e: "events eventlessRecord = Some []" "owners eventlessRecord = Some []"
    by (simp_all add: eventlessRecord_def testRecord_def)
  show ?thesis
    using s r e prepareLoop_empty_events[OF e(1)]
    by (simp add: prepareMetadata_def corpus_names)
qed

lemma prepareMetadataFlat_empty_owners_throws:
  "prepareMetadataFlat testNormEnv testOptions [''1.json'', ''2.json'']
      \<lparr>trace = [], files = [''in/1.json'' \<mapsto> JsonFile eventlessRecord,
                             ''in/2.json'' \<mapsto> JsonFile eventlessRecord]\<rparr>
   = Some (Inl TypeError, \<lparr>trace = [], files = [''in/1.json'' \<mapsto> JsonFile eventlessRecord,
                             ''in/2.json'' \<mapsto> JsonFile eventlessRecord]\<rparr>)"
  by (simp add: prepareMetadataFlat_def endsWith_def suffix_Cons testOptions_def sortBy_def
      compareOwners_def reduce_def eventlessRecord_def testRecord_def)

lemmas gif_defs = substituteMedia_def exists_def gifNext.simps fetchMore_def LIMIT_def isGif_def
  downloadGif_def fetch_def gifSearch_def gifHost_def gifOptions_def firstGif_def gifTrace_def
  gifWorld0_def gifWorld1_def gifWorld2_def gifOut_def laterOut_def laterRecord_def sleep_def
  eval_nat_numeral suffix_Cons

lemma gif_loop_first:
  "prepareLoop testNormEnv gifOptions 0 (Some NotStarted) [laterRecord] gifWorld0
     = Some (Inr (), gifWorld1)"
  by (simp add: norm_defs gif_defs)

lemma gif_loop_second:
  "prepareLoop testNormEnv gifOptions 0 (Some NotStarted) [laterRecord] gifWorld1
     = Some (Inr (), gifWorld2)"
  by (simp add: norm_defs gif_defs)

text \<open>
  C2 fails on the code: the first run writes the placeholder to \<open>out/assets/1.gif\<close>, the
  second run looks for \<open>out/1.gif\<close>, does not find it, and searches and downloads again.
\<close>

theorem prepareMetadata_downloads_again:
  "prepareMetadata testNormEnv gifOptions [''1.json'', ''1.png''] gifWorld0 = Some (Inr (), gifWorld1)
   \<and> files gifWorld1 ''out/assets/1.gif'' = Some (ImageFile ''GIF89a'')
   \<and> prepareMetadata testNormEnv gifOptions [''1.json'', ''1.png''] gifWorld1 = Some (Inr (), gifWorld2)
   \<and> trace gifWorld2 = trace gifWorld1 @ [Fetch (GiphySearch ''gk'' ''ape'' 0), Fetch (GetGif firstGif)]"
proof -
  have s: "sortBy compareFileNames [''1.json''] = Inr [''1.json'']"
    by (simp add: sortBy_def)
  have r: "readAll gifOptions [''1.json''] gifWorld0 = Inr [laterRecord]"
    "readAll gifOptions [''1.json''] gifWorld1 = Inr [laterRecord]"
    by (simp_all add: gifWorld0_def gifWorld1_def gifOptions_def testOptions_def)
  have o: "testImages gifOptions \<and> truthy (giphyApiKey gifOptions)"
    by (simp add: gifOptions_def truthy_def)
  have 1: "prepareMetadata testNormEnv gifOptions [''1.json'', ''1.png''] gifWorld0 = Some (Inr (), gifWorld1)"
    using s r o gif_loop_first by (simp add: prepareMetadata_def corpus_names)
  have 2: "prepareMetadata testNormEnv gifOptions [''1.json'', ''1.png''] gifWorld1 = Some (Inr (), gifWorld2)"
    using s r o gif_loop_second by (simp add: prepareMetadata_def corpus_names)
  show ?thesis using 1 2 by (simp add: gifWorld1_def gifWorld2_def gifTrace_def)
qed

end
